theory Spec2Isabelle
  imports Main "HOL-Library.Word" "HOL-Library.AList"
begin

section \<open>Python values, exceptions and bytes\<close>

text \<open>
  The two scripts \<^verbatim>\<open>server-modified.py\<close> and \<^verbatim>\<open>client-modified.py\<close> share
  \<^verbatim>\<open>send_message\<close>, \<^verbatim>\<open>recv_exact\<close> and \<^verbatim>\<open>recv_message\<close> verbatim (lines 18-96 of
  both files), so one embedding serves both roles.

  A Python \<^verbatim>\<open>bytes\<close> object is a list of 8-bit words, a Python \<^verbatim>\<open>str\<close> is a list of
  Unicode code points, and a Python \<^verbatim>\<open>int\<close> that only ever counts bytes is an \<open>int\<close>
  or a \<open>nat\<close>.
\<close>

type_synonym byte = "8 word"
type_synonym bytes = "byte list"
type_synonym pystr = "nat list"

text \<open>
  The exceptions the modelled code can meet, under their Python names.
  \<open>KeyboardInterrupt\<close> stands for the classes that derive from \<^verbatim>\<open>BaseException\<close> but not
  from \<^verbatim>\<open>Exception\<close>: an \<^verbatim>\<open>except Exception\<close> clause lets them through.
\<close>

datatype exn =
    ConnectionError
  | ValueError
  | struct_error
  | OSError
  | TypeError
  | UnicodeEncodeError
  | UnicodeDecodeError
  | IsADirectoryError
  | FileNotFoundError
  | KeyboardInterrupt

fun is_Exception :: "exn \<Rightarrow> bool" where
  "is_Exception KeyboardInterrupt = False"
| "is_Exception _ = True"

text \<open>What a caller may hand to \<^verbatim>\<open>send_message\<close>: a \<^verbatim>\<open>str\<close>, a \<^verbatim>\<open>bytes\<close> or an object
  such as \<^verbatim>\<open>None\<close> that has no \<^verbatim>\<open>len()\<close>.\<close>

datatype pyval = PyStr pystr | PyBytes bytes | PyNone

subsection \<open>struct.pack and struct.unpack in network byte order\<close>

fun be_encode :: "nat \<Rightarrow> nat \<Rightarrow> bytes" where
  "be_encode 0 n = []"
| "be_encode (Suc k) n = be_encode k (n div 256) @ [of_nat (n mod 256)]"

definition be_decode :: "bytes \<Rightarrow> nat" where
  "be_decode bs = foldl (\<lambda>a b. a * 256 + unat b) 0 bs"

text \<open>\<^verbatim>\<open>struct.pack('!I', n)\<close>: four bytes, \<^verbatim>\<open>struct.error\<close> when \<open>n\<close> does not fit.\<close>

definition struct_pack_I :: "nat \<Rightarrow> exn + bytes" where
  "struct_pack_I n = (if n < 2 ^ 32 then Inr (be_encode 4 n) else Inl struct_error)"

text \<open>\<^verbatim>\<open>struct.unpack('!I', b)[0]\<close>: \<^verbatim>\<open>struct.error\<close> unless \<open>b\<close> has exactly four bytes.\<close>

definition struct_unpack_I :: "bytes \<Rightarrow> exn + nat" where
  "struct_unpack_I b = (if length b = 4 then Inr (be_decode b) else Inl struct_error)"

text \<open>\<^verbatim>\<open>struct.pack('!Q', n)\<close> and \<^verbatim>\<open>struct.unpack('!Q', b)[0]\<close>: eight bytes.\<close>

definition struct_pack_Q :: "nat \<Rightarrow> exn + bytes" where
  "struct_pack_Q n = (if n < 2 ^ 64 then Inr (be_encode 8 n) else Inl struct_error)"

definition struct_unpack_Q :: "bytes \<Rightarrow> exn + nat" where
  "struct_unpack_Q b = (if length b = 8 then Inr (be_decode b) else Inl struct_error)"

section \<open>The connected socket\<close>

text \<open>
  A connected stream socket, seen from one peer.
  \<^item> \<open>inbound\<close>: the segments the transport will still deliver, in order; a segment
    boundary is a place where \<^verbatim>\<open>recv\<close> returns short. When no data is left the peer
    has closed and \<^verbatim>\<open>recv\<close> returns \<^verbatim>\<open>b''\<close>.
  \<^item> \<open>outbound\<close>: every byte written so far.
  \<^item> \<open>wlimit\<close>: how many more bytes the transport accepts before a write fails with
    \<^verbatim>\<open>OSError\<close>; \<open>None\<close> when writes never fail.
  \<^item> \<open>recv_calls\<close>: how many times \<^verbatim>\<open>recv\<close> has been called.
\<close>

record sock =
  inbound :: "bytes list"
  outbound :: bytes
  wlimit :: "nat option"
  recv_calls :: nat

fun deliver :: "nat \<Rightarrow> bytes list \<Rightarrow> bytes \<times> bytes list" where
  "deliver n [] = ([], [])"
| "deliver n (c # cs) =
     (if c = [] then deliver n cs
      else (take n c, if length c \<le> n then cs else drop n c # cs))"

text \<open>\<^verbatim>\<open>sock.recv(bufsize)\<close>: at most \<open>bufsize\<close> bytes of the next segment.\<close>

definition sock_recv :: "nat \<Rightarrow> sock \<Rightarrow> bytes \<times> sock" where
  "sock_recv bufsize s =
     (let (chunk, rest) = deliver bufsize (inbound s)
      in (chunk, s\<lparr>inbound := rest, recv_calls := Suc (recv_calls s)\<rparr>))"

text \<open>\<^verbatim>\<open>sock.sendall(data)\<close>: all of \<open>data\<close>, or the part the transport still took and
  \<^verbatim>\<open>OSError\<close>.\<close>

definition sock_sendall :: "bytes \<Rightarrow> sock \<Rightarrow> (exn + unit) \<times> sock" where
  "sock_sendall data s =
     (case wlimit s of
        None \<Rightarrow> (Inr (), s\<lparr>outbound := outbound s @ data\<rparr>)
      | Some k \<Rightarrow>
          if length data \<le> k
          then (Inr (), s\<lparr>outbound := outbound s @ data, wlimit := Some (k - length data)\<rparr>)
          else (Inl OSError, s\<lparr>outbound := outbound s @ take k data, wlimit := Some 0\<rparr>))"

definition fresh_sock :: "bytes list \<Rightarrow> sock" where
  "fresh_sock segs = \<lparr>inbound = segs, outbound = [], wlimit = None, recv_calls = 0\<rparr>"

text \<open>The transport still accepts \<open>n\<close> more bytes.\<close>

definition writable :: "sock \<Rightarrow> nat \<Rightarrow> bool" where
  "writable s n = (case wlimit s of None \<Rightarrow> True | Some k \<Rightarrow> n \<le> k)"

section \<open>Exact-length receive\<close>

text \<open>
  \<^verbatim>\<open>recv_exact\<close> (lines 50-69). The loop carries \<^verbatim>\<open>data\<close> and \<^verbatim>\<open>bytes_remaining\<close>;
  an empty chunk raises \<^verbatim>\<open>ConnectionError\<close>.
\<close>

function recv_exact_loop :: "bytes \<Rightarrow> int \<Rightarrow> sock \<Rightarrow> (exn + bytes) \<times> sock" where
  "recv_exact_loop data bytes_remaining s =
     (if bytes_remaining > 0 then
        (case sock_recv (nat bytes_remaining) s of
           (chunk, s') \<Rightarrow>
             if chunk = [] then (Inl ConnectionError, s')
             else recv_exact_loop (data @ chunk) (bytes_remaining - int (length chunk)) s')
      else (Inr data, s))"
  by pat_completeness auto
termination
  by (relation "measure (\<lambda>(data, bytes_remaining, s). nat bytes_remaining)") auto

declare recv_exact_loop.simps [simp del]

definition recv_exact :: "int \<Rightarrow> sock \<Rightarrow> (exn + bytes) \<times> sock" where
  "recv_exact n_bytes s = recv_exact_loop [] n_bytes s"

section \<open>The framed-message channel\<close>

text \<open>\<^verbatim>\<open>str.encode('utf-8')\<close> on one code point; surrogates and values beyond
  U+10FFFF cannot be encoded.\<close>

definition utf8_encode_cp :: "nat \<Rightarrow> exn + bytes" where
  "utf8_encode_cp c =
     (if c < 0x80 then Inr [of_nat c]
      else if c < 0x800 then Inr [of_nat (0xC0 + c div 64), of_nat (0x80 + c mod 64)]
      else if c < 0x10000 then
        (if 0xD800 \<le> c \<and> c \<le> 0xDFFF then Inl UnicodeEncodeError
         else Inr [of_nat (0xE0 + c div 4096), of_nat (0x80 + c div 64 mod 64),
                   of_nat (0x80 + c mod 64)])
      else if c < 0x110000 then
        Inr [of_nat (0xF0 + c div 262144), of_nat (0x80 + c div 4096 mod 64),
             of_nat (0x80 + c div 64 mod 64), of_nat (0x80 + c mod 64)]
      else Inl UnicodeEncodeError)"

fun utf8_encode :: "pystr \<Rightarrow> exn + bytes" where
  "utf8_encode [] = Inr []"
| "utf8_encode (c # cs) =
     (case utf8_encode_cp c of
        Inl e \<Rightarrow> Inl e
      | Inr b \<Rightarrow> (case utf8_encode cs of Inl e \<Rightarrow> Inl e | Inr bs \<Rightarrow> Inr (b @ bs)))"

text \<open>Lines 26-32: the \<^verbatim>\<open>isinstance\<close> branch and \<^verbatim>\<open>len(message_bytes)\<close>, which raises
  \<^verbatim>\<open>TypeError\<close> on an object without a length.\<close>

fun message_bytes_of :: "pyval \<Rightarrow> exn + bytes" where
  "message_bytes_of (PyStr message) = utf8_encode message"
| "message_bytes_of (PyBytes message) = Inr message"
| "message_bytes_of PyNone = Inl TypeError"

text \<open>The \<^verbatim>\<open>try\<close> body of \<^verbatim>\<open>send_message\<close> (lines 25-45).\<close>

definition send_message_try :: "pyval \<Rightarrow> sock \<Rightarrow> (exn + bool) \<times> sock" where
  "send_message_try message s =
     (case message_bytes_of message of
        Inl e \<Rightarrow> (Inl e, s)
      | Inr message_bytes \<Rightarrow>
          (case struct_pack_I (length message_bytes) of
             Inl e \<Rightarrow> (Inl e, s)
           | Inr length_header \<Rightarrow>
               (case sock_sendall length_header s of
                  (Inl e, s1) \<Rightarrow> (Inl e, s1)
                | (Inr _, s1) \<Rightarrow>
                    (case sock_sendall message_bytes s1 of
                       (Inl e, s2) \<Rightarrow> (Inl e, s2)
                     | (Inr _, s2) \<Rightarrow> (Inr True, s2)))))"

text \<open>\<^verbatim>\<open>send_message\<close> with its \<^verbatim>\<open>except Exception\<close> clause (lines 46-48).\<close>

definition send_message :: "pyval \<Rightarrow> sock \<Rightarrow> (exn + bool) \<times> sock" where
  "send_message message s =
     (case send_message_try message s of
        (Inl e, s') \<Rightarrow> if is_Exception e then (Inr False, s') else (Inl e, s')
      | (Inr r, s') \<Rightarrow> (Inr r, s'))"

text \<open>The \<^verbatim>\<open>try\<close> body of \<^verbatim>\<open>recv_message\<close> (lines 78-93); the 100 MB check raises
  \<^verbatim>\<open>ValueError\<close>.\<close>

definition recv_message_try :: "sock \<Rightarrow> (exn + bytes option) \<times> sock" where
  "recv_message_try s =
     (case recv_exact 4 s of
        (Inl e, s1) \<Rightarrow> (Inl e, s1)
      | (Inr length_header, s1) \<Rightarrow>
          (case struct_unpack_I length_header of
             Inl e \<Rightarrow> (Inl e, s1)
           | Inr message_length \<Rightarrow>
               if message_length > 1024 * 1024 * 100 then (Inl ValueError, s1)
               else
                 (case recv_exact (int message_length) s1 of
                    (Inl e, s2) \<Rightarrow> (Inl e, s2)
                  | (Inr message_data, s2) \<Rightarrow> (Inr (Some message_data), s2))))"

text \<open>\<^verbatim>\<open>recv_message\<close> with its \<^verbatim>\<open>except Exception\<close> clause (lines 94-96), which
  returns \<^verbatim>\<open>None\<close>.\<close>

definition recv_message :: "sock \<Rightarrow> (exn + bytes option) \<times> sock" where
  "recv_message s =
     (case recv_message_try s of
        (Inl e, s') \<Rightarrow> if is_Exception e then (Inr None, s') else (Inl e, s')
      | (Inr r, s') \<Rightarrow> (Inr r, s'))"

section \<open>Text, paths and the filesystem\<close>

text \<open>A \<^verbatim>\<open>str\<close> literal of the source, as code points.\<close>

definition str_lit :: "string \<Rightarrow> pystr" where
  "str_lit cs = map of_char cs"

text \<open>
  \<^verbatim>\<open>bytes.decode('utf-8')\<close>, strict: \<open>utf8_take\<close> reads one code point from a
  non-empty input and tells how many continuation bytes it used. Overlong forms,
  surrogates and values beyond U+10FFFF raise \<^verbatim>\<open>UnicodeDecodeError\<close>.
\<close>

definition is_cont :: "byte \<Rightarrow> bool" where
  "is_cont b = (0x80 \<le> unat b \<and> unat b < 0xC0)"

definition cont_value :: "nat \<Rightarrow> bytes \<Rightarrow> nat" where
  "cont_value lead conts = foldl (\<lambda>a b. a * 64 + (unat b - 0x80)) lead conts"

definition utf8_take :: "bytes \<Rightarrow> exn + nat \<times> nat" where
  "utf8_take bs =
     (case bs of
        [] \<Rightarrow> Inl UnicodeDecodeError
      | b0 # r \<Rightarrow>
          (let n0 = unat b0;
               k = (if n0 < 0x80 then 0 else if n0 < 0xE0 then 1 else if n0 < 0xF0 then 2 else 3);
               lead = (if n0 < 0x80 then n0 else if n0 < 0xE0 then n0 - 0xC0
                       else if n0 < 0xF0 then n0 - 0xE0 else n0 - 0xF0);
               lo = (if n0 < 0x80 then 0 else if n0 < 0xE0 then 0x80
                     else if n0 < 0xF0 then 0x800 else 0x10000);
               conts = take k r;
               c = cont_value lead conts
           in if (0x80 \<le> n0 \<and> n0 < 0xC2) \<or> 0xF5 \<le> n0 then Inl UnicodeDecodeError
              else if length conts < k \<or> \<not> list_all is_cont conts then Inl UnicodeDecodeError
              else if c < lo \<or> (0xD800 \<le> c \<and> c \<le> 0xDFFF) \<or> 0x10FFFF < c
                then Inl UnicodeDecodeError
              else Inr (c, k)))"

function utf8_decode :: "bytes \<Rightarrow> exn + pystr" where
  "utf8_decode bs =
     (if bs = [] then Inr []
      else
        (case utf8_take bs of
           Inl e \<Rightarrow> Inl e
         | Inr (c, k) \<Rightarrow>
             (case utf8_decode (drop (Suc k) bs) of
                Inl e \<Rightarrow> Inl e
              | Inr cs \<Rightarrow> Inr (c # cs))))"
  by pat_completeness auto
termination
  by (relation "measure length") auto

declare utf8_decode.simps [simp del]

text \<open>\<^verbatim>\<open>s.endswith(c)\<close> for a one-character suffix, \<^verbatim>\<open>s.startswith(c)\<close> likewise.\<close>

definition endswith :: "pystr \<Rightarrow> nat \<Rightarrow> bool" where
  "endswith s c = (s \<noteq> [] \<and> last s = c)"

definition startswith :: "pystr \<Rightarrow> nat \<Rightarrow> bool" where
  "startswith s c = (s \<noteq> [] \<and> hd s = c)"

text \<open>\<^verbatim>\<open>os.path.join(a, b)\<close> and \<^verbatim>\<open>os.path.basename(p)\<close> of \<^verbatim>\<open>posixpath\<close>; 47 is
  \<^verbatim>\<open>'/'\<close>, 92 is the backslash and 43 is \<^verbatim>\<open>'+'\<close>.\<close>

definition os_path_join :: "pystr \<Rightarrow> pystr \<Rightarrow> pystr" where
  "os_path_join a b =
     (if startswith b 47 then b
      else if a = [] \<or> endswith a 47 then a @ b
      else a @ [47] @ b)"

definition os_path_basename :: "pystr \<Rightarrow> pystr" where
  "os_path_basename p = rev (takeWhile (\<lambda>c. c \<noteq> 47) (rev p))"

text \<open>\<^verbatim>\<open>s.split(sep)\<close> for a one-character separator: never an empty list.\<close>

fun split_sep :: "nat \<Rightarrow> pystr \<Rightarrow> pystr list" where
  "split_sep sep [] = [[]]"
| "split_sep sep (c # cs) =
     (if c = sep then [] # split_sep sep cs
      else (case split_sep sep cs of
              [] \<Rightarrow> [[c]]
            | p # ps \<Rightarrow> (c # p) # ps))"

text \<open>
  The filesystem the scripts see: regular files with their content, the path strings
  that denote a directory (with the size \<^verbatim>\<open>os.path.getsize\<close> reports for them), and the
  path strings that cannot be opened for writing for another reason (missing parent,
  permissions).
\<close>

record filesystem =
  files :: "(pystr \<times> bytes) list"
  dirs :: "(pystr \<times> nat) list"
  unwritable :: "pystr list"

definition os_path_exists :: "filesystem \<Rightarrow> pystr \<Rightarrow> bool" where
  "os_path_exists fs p = (map_of (files fs) p \<noteq> None \<or> map_of (dirs fs) p \<noteq> None)"

definition os_path_getsize :: "filesystem \<Rightarrow> pystr \<Rightarrow> exn + nat" where
  "os_path_getsize fs p =
     (case map_of (files fs) p of
        Some content \<Rightarrow> Inr (length content)
      | None \<Rightarrow> (case map_of (dirs fs) p of Some n \<Rightarrow> Inr n | None \<Rightarrow> Inl FileNotFoundError))"

text \<open>\<^verbatim>\<open>open(p, 'rb')\<close>: the content to read.\<close>

definition open_rb :: "filesystem \<Rightarrow> pystr \<Rightarrow> exn + bytes" where
  "open_rb fs p =
     (case map_of (files fs) p of
        Some content \<Rightarrow> Inr content
      | None \<Rightarrow> (if map_of (dirs fs) p \<noteq> None then Inl IsADirectoryError
                 else Inl FileNotFoundError))"

text \<open>\<^verbatim>\<open>open(p, 'wb')\<close>: creates or truncates the file.\<close>

definition open_wb :: "filesystem \<Rightarrow> pystr \<Rightarrow> exn + filesystem" where
  "open_wb fs p =
     (if map_of (dirs fs) p \<noteq> None then Inl IsADirectoryError
      else if p = [] then Inl FileNotFoundError
      else if p \<in> set (unwritable fs) then Inl OSError
      else Inr (fs\<lparr>files := AList.update p [] (files fs)\<rparr>))"

text \<open>\<^verbatim>\<open>f.write(chunk)\<close> on the file opened at \<open>p\<close>.\<close>

definition file_write :: "filesystem \<Rightarrow> pystr \<Rightarrow> bytes \<Rightarrow> filesystem" where
  "file_write fs p chunk =
     fs\<lparr>files :=
          AList.update p ((case map_of (files fs) p of None \<Rightarrow> [] | Some old \<Rightarrow> old) @ chunk)
            (files fs)\<rparr>"

definition chunk_size :: nat where
  "chunk_size = 64 * 1024"

section \<open>Sending a file (server-modified.py, lines 98-148)\<close>

text \<open>The \<^verbatim>\<open>while bytes_sent < file_size\<close> loop (lines 129-142); \<open>f\<close> is the part
  of the file not yet read, and an empty read leaves the loop.\<close>

function send_file_loop :: "bytes \<Rightarrow> nat \<Rightarrow> nat \<Rightarrow> sock \<Rightarrow> (exn + nat) \<times> sock" where
  "send_file_loop f bytes_sent file_size s =
     (if bytes_sent < file_size then
        (let remaining = file_size - bytes_sent;
             current_chunk_size = min chunk_size remaining;
             chunk = take current_chunk_size f
         in if chunk = [] then (Inr bytes_sent, s)
            else
              (case sock_sendall chunk s of
                 (Inl e, s') \<Rightarrow> (Inl e, s')
               | (Inr _, s') \<Rightarrow>
                   send_file_loop (drop current_chunk_size f) (bytes_sent + length chunk)
                     file_size s'))
      else (Inr bytes_sent, s))"
  by pat_completeness auto
termination
  by (relation "measure (\<lambda>(f, bytes_sent, file_size, s). file_size - bytes_sent)")
     (auto simp: min_def neq_Nil_conv)

declare send_file_loop.simps [simp del]

definition send_file_try :: "filesystem \<Rightarrow> sock \<Rightarrow> pystr \<Rightarrow> (exn + bool) \<times> sock" where
  "send_file_try fs s file_path =
     (if \<not> os_path_exists fs file_path then (Inr False, s)
      else
        (case os_path_getsize fs file_path of
           Inl e \<Rightarrow> (Inl e, s)
         | Inr file_size \<Rightarrow>
             (let filename = os_path_basename file_path in
              (case send_message (PyStr filename) s of
                 (Inl e, s1) \<Rightarrow> (Inl e, s1)
               | (Inr sent, s1) \<Rightarrow>
                   if \<not> sent then (Inr False, s1)
                   else
                     (case struct_pack_Q file_size of
                        Inl e \<Rightarrow> (Inl e, s1)
                      | Inr file_size_bytes \<Rightarrow>
                          (case sock_sendall file_size_bytes s1 of
                             (Inl e, s2) \<Rightarrow> (Inl e, s2)
                           | (Inr _, s2) \<Rightarrow>
                               (case open_rb fs file_path of
                                  Inl e \<Rightarrow> (Inl e, s2)
                                | Inr f \<Rightarrow>
                                    (case send_file_loop f 0 file_size s2 of
                                       (Inl e, s3) \<Rightarrow> (Inl e, s3)
                                     | (Inr _, s3) \<Rightarrow> (Inr True, s3)))))))))"

definition send_file :: "filesystem \<Rightarrow> sock \<Rightarrow> pystr \<Rightarrow> (exn + bool) \<times> sock" where
  "send_file fs s file_path =
     (case send_file_try fs s file_path of
        (Inl e, s') \<Rightarrow> if is_Exception e then (Inr False, s') else (Inl e, s')
      | (Inr r, s') \<Rightarrow> (Inr r, s'))"

section \<open>The listener's script (server-modified.py, lines 174-225)\<close>

text \<open>
  Where the script stops, one constructor for each branch of \<^verbatim>\<open>main\<close> after the
  connection is accepted: the failed greeting (line 178), no valid response (line 225),
  the two format errors (lines 219-223), and the completed handshake with the three
  parsed fields (lines 193-217).
\<close>

datatype session_end =
    Hello_Failed
  | No_Valid_Response
  | Missing_Separator
  | Invalid_Format
  | Completed pystr pystr pystr

definition hello_message :: pystr where
  "hello_message = str_lit ''Hello''"

definition large_message :: pystr where
  "large_message = concat (replicate 1000 (str_lit ''This is a large test message! ''))"

definition test_file :: pystr where
  "test_file = str_lit ''test_file.txt''"

definition error_invalid_format :: pystr where
  "error_invalid_format = str_lit ''ERROR: Invalid format''"

definition error_missing_separator :: pystr where
  "error_missing_separator = str_lit ''ERROR: Missing separator''"

text \<open>Lines 204-217: the large message, then the optional file.\<close>

definition listener_identified ::
  "filesystem \<Rightarrow> sock \<Rightarrow> pystr list \<Rightarrow> (exn + session_end) \<times> sock" where
  "listener_identified fs conn parts =
     (let client_port = parts ! 0; client_machine = parts ! 1; client_ip = parts ! 2 in
      (case send_message (PyStr large_message) conn of
         (Inl e, c1) \<Rightarrow> (Inl e, c1)
       | (Inr _, c1) \<Rightarrow>
           if os_path_exists fs test_file then
             (case send_file fs c1 test_file of
                (Inl e, c2) \<Rightarrow> (Inl e, c2)
              | (Inr _, c2) \<Rightarrow> (Inr (Completed client_port client_machine client_ip), c2))
           else (Inr (Completed client_port client_machine client_ip), c1)))"

text \<open>Lines 185-225: what the listener does with the value of \<^verbatim>\<open>recv_message\<close>.
  \<^verbatim>\<open>if client_data:\<close> is false for \<^verbatim>\<open>None\<close> and for \<^verbatim>\<open>b''\<close>.\<close>

definition listener_response ::
  "filesystem \<Rightarrow> sock \<Rightarrow> bytes option \<Rightarrow> (exn + session_end) \<times> sock" where
  "listener_response fs conn client_data =
     (case client_data of
        None \<Rightarrow> (Inr No_Valid_Response, conn)
      | Some d \<Rightarrow>
          if d = [] then (Inr No_Valid_Response, conn)
          else
            (case utf8_decode d of
               Inl e \<Rightarrow> (Inl e, conn)
             | Inr client_response \<Rightarrow>
                 if 43 \<in> set client_response then
                   (let parts = split_sep 43 client_response in
                    if length parts = 3 then listener_identified fs conn parts
                    else
                      (case send_message (PyStr error_invalid_format) conn of
                         (Inl e, c1) \<Rightarrow> (Inl e, c1)
                       | (Inr _, c1) \<Rightarrow> (Inr Invalid_Format, c1)))
                 else
                   (case send_message (PyStr error_missing_separator) conn of
                      (Inl e, c1) \<Rightarrow> (Inl e, c1)
                    | (Inr _, c1) \<Rightarrow> (Inr Missing_Separator, c1))))"

definition listener :: "filesystem \<Rightarrow> sock \<Rightarrow> (exn + session_end) \<times> sock" where
  "listener fs conn =
     (case send_message (PyStr hello_message) conn of
        (Inl e, c1) \<Rightarrow> (Inl e, c1)
      | (Inr sent, c1) \<Rightarrow>
          if \<not> sent then (Inr Hello_Failed, c1)
          else
            (case recv_message c1 of
               (Inl e, c2) \<Rightarrow> (Inl e, c2)
             | (Inr client_data, c2) \<Rightarrow> listener_response fs c2 client_data))"

section \<open>Receiving a file (client-modified.py, lines 98-144)\<close>

text \<open>Lines 118-121: a destination that ends with a slash or a backslash is joined
  with the received name, any other destination is the output path itself.\<close>

definition full_save_path :: "pystr \<Rightarrow> pystr \<Rightarrow> pystr" where
  "full_save_path save_path filename =
     (if endswith save_path 47 \<or> endswith save_path 92
      then os_path_join save_path filename
      else save_path)"

text \<open>The \<^verbatim>\<open>while bytes_received < file_size\<close> loop (lines 128-138), writing each
  chunk to the file opened at \<open>path\<close>.\<close>

function recv_file_loop ::
  "pystr \<Rightarrow> nat \<Rightarrow> nat \<Rightarrow> sock \<Rightarrow> filesystem \<Rightarrow> (exn + unit) \<times> sock \<times> filesystem" where
  "recv_file_loop path bytes_received file_size s fs =
     (if bytes_received < file_size then
        (let remaining = file_size - bytes_received;
             current_chunk_size = min chunk_size remaining
         in (case recv_exact (int current_chunk_size) s of
               (Inl e, s') \<Rightarrow> (Inl e, s', fs)
             | (Inr chunk, s') \<Rightarrow>
                 recv_file_loop path (bytes_received + length chunk) file_size s'
                   (file_write fs path chunk)))
      else (Inr (), s, fs))"
  by pat_completeness auto
termination
proof (relation "measure (\<lambda>(path, bytes_received, file_size, s, fs). file_size - bytes_received)",
    goal_cases)
  case 1
  show ?case by simp
next
  case (2 path bytes_received file_size s fs x xa xb y b)
  have grow: "fst (recv_exact_loop data n t) = Inr out \<Longrightarrow> int (length data) + n \<le> int (length out)"
    for data n t out
  proof (induction data n t rule: recv_exact_loop.induct)
    case (1 data n t)
    show ?case
    proof (cases "n > 0")
      case False
      with "1.prems" show ?thesis by (subst (asm) recv_exact_loop.simps) auto
    next
      case pos: True
      obtain c t' where r: "sock_recv (nat n) t = (c, t')"
        by (cases "sock_recv (nat n) t")
      show ?thesis
      proof (cases "c = []")
        case True
        with pos r "1.prems" show ?thesis by (subst (asm) recv_exact_loop.simps) simp
      next
        case False
        have "recv_exact_loop data n t = recv_exact_loop (data @ c) (n - int (length c)) t'"
          using pos r False by (subst recv_exact_loop.simps) simp
        with "1.prems" have "fst (recv_exact_loop (data @ c) (n - int (length c)) t') = Inr out"
          by simp
        from "1.IH"[OF pos r[symmetric] False this] show ?thesis by simp
      qed
    qed
  qed
  have "recv_exact (int (min chunk_size (file_size - bytes_received))) s = (Inr b, y)"
    using 2 by simp
  then have "fst (recv_exact_loop [] (int (min chunk_size (file_size - bytes_received))) s) = Inr b"
    by (simp add: recv_exact_def)
  from grow [OF this] have "min chunk_size (file_size - bytes_received) \<le> length b"
    by simp
  with 2(1) show ?case by (simp add: chunk_size_def min_def split: if_splits)
qed

declare recv_file_loop.simps [simp del]

text \<open>The \<^verbatim>\<open>try\<close> body of \<^verbatim>\<open>recv_file\<close> (lines 104-141); \<^verbatim>\<open>if not filename_data\<close>
  holds for \<^verbatim>\<open>None\<close> and for \<^verbatim>\<open>b''\<close>.\<close>

definition recv_file_try ::
  "sock \<Rightarrow> filesystem \<Rightarrow> pystr \<Rightarrow> (exn + bool) \<times> sock \<times> filesystem" where
  "recv_file_try s fs save_path =
     (case recv_message s of
        (Inl e, s1) \<Rightarrow> (Inl e, s1, fs)
      | (Inr None, s1) \<Rightarrow> (Inr False, s1, fs)
      | (Inr (Some filename_data), s1) \<Rightarrow>
          if filename_data = [] then (Inr False, s1, fs)
          else
            (case utf8_decode filename_data of
               Inl e \<Rightarrow> (Inl e, s1, fs)
             | Inr filename \<Rightarrow>
                 (case recv_exact 8 s1 of
                    (Inl e, s2) \<Rightarrow> (Inl e, s2, fs)
                  | (Inr file_size_data, s2) \<Rightarrow>
                      (case struct_unpack_Q file_size_data of
                         Inl e \<Rightarrow> (Inl e, s2, fs)
                       | Inr file_size \<Rightarrow>
                           (case open_wb fs (full_save_path save_path filename) of
                              Inl e \<Rightarrow> (Inl e, s2, fs)
                            | Inr fs1 \<Rightarrow>
                                (case recv_file_loop (full_save_path save_path filename) 0
                                        file_size s2 fs1 of
                                   (Inl e, s3, fs2) \<Rightarrow> (Inl e, s3, fs2)
                                 | (Inr _, s3, fs2) \<Rightarrow> (Inr True, s3, fs2)))))))"

definition recv_file ::
  "sock \<Rightarrow> filesystem \<Rightarrow> pystr \<Rightarrow> (exn + bool) \<times> sock \<times> filesystem" where
  "recv_file s fs save_path =
     (case recv_file_try s fs save_path of
        (Inl e, s', fs') \<Rightarrow> if is_Exception e then (Inr False, s', fs') else (Inl e, s', fs')
      | (Inr r, s', fs') \<Rightarrow> (Inr r, s', fs'))"

section \<open>Properties of the byte order and of the socket\<close>

lemma deliver_concat: "deliver n cs = (chunk, cs') \<Longrightarrow> chunk @ concat cs' = concat cs"
  by (induction cs) (auto split: if_splits)

lemma deliver_length: "deliver n cs = (chunk, cs') \<Longrightarrow> length chunk \<le> n"
  by (induction cs) (auto split: if_splits)

lemma deliver_empty: "0 < n \<Longrightarrow> deliver n cs = (chunk, cs') \<Longrightarrow> chunk = [] \<longleftrightarrow> concat cs = []"
  by (induction cs) (auto split: if_splits)

lemma be_decode_snoc: "be_decode (bs @ [b]) = be_decode bs * 256 + unat b"
  by (simp add: be_decode_def)

lemma length_be_encode: "length (be_encode k n) = k"
  by (induction k arbitrary: n) auto

lemma be_decode_encode: "be_decode (be_encode k n) = n mod 256 ^ k"
proof (induction k arbitrary: n)
  case 0 show ?case by (simp add: be_decode_def)
next
  case (Suc k)
  have b: "unat (of_nat (n mod 256) :: byte) = n mod 256"
    by (simp add: unat_of_nat)
  have "n mod 256 ^ Suc k = 256 * (n div 256 mod 256 ^ k) + n mod 256"
    using mod_mult2_eq[of n 256 "256 ^ k"] by simp
  then show ?case using Suc[of "n div 256"] b
    by (simp add: be_decode_snoc)
qed

lemma sock_recv_deliver:
  "sock_recv n s = (chunk, s') \<Longrightarrow> deliver n (inbound s) = (chunk, inbound s')"
  by (auto simp: sock_recv_def split: prod.splits)

lemma sock_recv_frame:
  "sock_recv n s = (chunk, s') \<Longrightarrow>
     outbound s' = outbound s \<and> wlimit s' = wlimit s \<and> recv_calls s' = Suc (recv_calls s)"
  by (auto simp: sock_recv_def split: prod.splits)

lemma recv_exact_loop_fst:
  "fst (recv_exact_loop data n s) =
     (if n \<le> int (length (concat (inbound s)))
      then Inr (data @ take (nat n) (concat (inbound s)))
      else Inl ConnectionError)"
proof (induction data n s rule: recv_exact_loop.induct)
  case (1 data n s)
  show ?case
  proof (cases "n > 0")
    case False
    then show ?thesis by (subst recv_exact_loop.simps) simp
  next
    case pos: True
    obtain chunk s' where r: "sock_recv (nat n) s = (chunk, s')"
      by (cases "sock_recv (nat n) s")
    note d = sock_recv_deliver[OF r]
    have cat: "concat (inbound s) = chunk @ concat (inbound s')"
      using deliver_concat[OF d] by simp
    have len: "length chunk \<le> nat n" using deliver_length[OF d] .
    show ?thesis
    proof (cases "chunk = []")
      case True
      with pos deliver_empty[OF _ d] have "concat (inbound s) = []" by simp
      then have "length (concat (inbound s)) = 0" by (simp only: list.size)
      with pos have "\<not> n \<le> int (length (concat (inbound s)))" by linarith
      with pos True r show ?thesis by (subst recv_exact_loop.simps) (simp del: concat_eq_Nil_conv)
    next
      case False
      have ih: "fst (recv_exact_loop (data @ chunk) (n - int (length chunk)) s') =
          (if n - int (length chunk) \<le> int (length (concat (inbound s')))
           then Inr ((data @ chunk) @ take (nat (n - int (length chunk))) (concat (inbound s')))
           else Inl ConnectionError)"
        using "1.IH"[OF pos r[symmetric] False] .
      have tk: "take (nat n) (chunk @ concat (inbound s')) =
                chunk @ take (nat (n - int (length chunk))) (concat (inbound s'))"
      proof -
        have "nat n - length chunk = nat (n - int (length chunk))" using len by linarith
        then show ?thesis using len by simp
      qed
      have "fst (recv_exact_loop data n s) =
            fst (recv_exact_loop (data @ chunk) (n - int (length chunk)) s')"
        using pos r False by (subst recv_exact_loop.simps) simp
      then show ?thesis using ih tk cat by auto
    qed
  qed
qed

lemma recv_exact_loop_inbound:
  "n \<le> int (length (concat (inbound s))) \<Longrightarrow>
   concat (inbound (snd (recv_exact_loop data n s))) = drop (nat n) (concat (inbound s))"
proof (induction data n s rule: recv_exact_loop.induct)
  case (1 data n s)
  show ?case
  proof (cases "n > 0")
    case False
    then show ?thesis by (subst recv_exact_loop.simps) simp
  next
    case pos: True
    obtain chunk s' where r: "sock_recv (nat n) s = (chunk, s')"
      by (cases "sock_recv (nat n) s")
    note d = sock_recv_deliver[OF r]
    have cat: "concat (inbound s) = chunk @ concat (inbound s')"
      using deliver_concat[OF d] by simp
    have len: "length chunk \<le> nat n" using deliver_length[OF d] .
    have ne: "chunk \<noteq> []"
    proof
      assume "chunk = []"
      with pos deliver_empty[OF _ d] have "concat (inbound s) = []" by simp
      then have "length (concat (inbound s)) = 0" by (simp only: list.size)
      with pos "1.prems" show False by linarith
    qed
    have enough: "n - int (length chunk) \<le> int (length (concat (inbound s')))"
      using "1.prems" cat by simp
    have ih: "concat (inbound (snd (recv_exact_loop (data @ chunk) (n - int (length chunk)) s'))) =
              drop (nat (n - int (length chunk))) (concat (inbound s'))"
      using "1.IH"[OF pos r[symmetric] ne enough] .
    have dr: "drop (nat n) (chunk @ concat (inbound s')) =
              drop (nat (n - int (length chunk))) (concat (inbound s'))"
    proof -
      have "nat n - length chunk = nat (n - int (length chunk))" using len by linarith
      then show ?thesis using len by simp
    qed
    have "recv_exact_loop data n s = recv_exact_loop (data @ chunk) (n - int (length chunk)) s'"
      using pos r ne by (subst recv_exact_loop.simps) simp
    then show ?thesis using ih dr cat by simp
  qed
qed

lemma recv_exact_loop_frame:
  "outbound (snd (recv_exact_loop data n s)) = outbound s \<and>
   wlimit (snd (recv_exact_loop data n s)) = wlimit s"
proof (induction data n s rule: recv_exact_loop.induct)
  case (1 data n s)
  show ?case
  proof (cases "n > 0")
    case False
    then show ?thesis by (subst (1 2) recv_exact_loop.simps) simp
  next
    case pos: True
    obtain chunk s' where r: "sock_recv (nat n) s = (chunk, s')"
      by (cases "sock_recv (nat n) s")
    note f = sock_recv_frame[OF r]
    show ?thesis
    proof (cases "chunk = []")
      case True
      with pos r f show ?thesis by (subst (1 2) recv_exact_loop.simps) simp
    next
      case False
      have "recv_exact_loop data n s = recv_exact_loop (data @ chunk) (n - int (length chunk)) s'"
        using pos r False by (subst recv_exact_loop.simps) simp
      then show ?thesis using "1.IH"[OF pos r[symmetric] False] f by simp
    qed
  qed
qed

lemma recv_exact_loop_nonpos: "n \<le> 0 \<Longrightarrow> recv_exact_loop data n s = (Inr data, s)"
  by (subst recv_exact_loop.simps) simp

lemma recv_exact_fst:
  "fst (recv_exact n s) =
     (if n \<le> int (length (concat (inbound s)))
      then Inr (take (nat n) (concat (inbound s)))
      else Inl ConnectionError)"
  using recv_exact_loop_fst [of "[]" n s] by (simp add: recv_exact_def)

lemma recv_exact_inbound:
  "n \<le> int (length (concat (inbound s))) \<Longrightarrow>
   concat (inbound (snd (recv_exact n s))) = drop (nat n) (concat (inbound s))"
  using recv_exact_loop_inbound [of n s "[]"] by (simp add: recv_exact_def)

lemma recv_exact_frame:
  "outbound (snd (recv_exact n s)) = outbound s \<and> wlimit (snd (recv_exact n s)) = wlimit s"
  using recv_exact_loop_frame [of "[]" n s] by (simp add: recv_exact_def)

text \<open>
  C2. For every \<open>n \<ge> 0\<close> and every way the stream is cut into segments, \<open>recv_exact\<close>
  returns the first \<open>n\<close> bytes of the stream in order and leaves the rest of the stream
  to be read; when the stream holds fewer than \<open>n\<close> bytes it raises \<open>ConnectionError\<close>,
  and a returned value never has fewer than \<open>n\<close> bytes.
\<close>

theorem recv_exact_first_n_bytes:
  "0 \<le> n \<Longrightarrow>
     fst (recv_exact n s) =
       (if n \<le> int (length (concat (inbound s)))
        then Inr (take (nat n) (concat (inbound s)))
        else Inl ConnectionError) \<and>
     (n \<le> int (length (concat (inbound s))) \<longrightarrow>
        concat (inbound (snd (recv_exact n s))) = drop (nat n) (concat (inbound s))) \<and>
     (\<forall>d. fst (recv_exact n s) = Inr d \<longrightarrow> int (length d) = n)"
  by (auto simp: recv_exact_fst recv_exact_inbound split: if_splits)

theorem recv_exact_first_n_bytes_witness:
  "(0::int) \<le> 3 \<and>
   fst (recv_exact 3 (fresh_sock [[1], [2], [3, 4]])) = Inr [1, 2, 3] \<and>
   concat (inbound (snd (recv_exact 3 (fresh_sock [[1], [2], [3, 4]])))) = [4] \<and>
   fst (recv_exact 3 (fresh_sock [[1], [2]])) = Inl ConnectionError"
  using recv_exact_first_n_bytes [of 3 "fresh_sock [[1], [2], [3, 4]]"]
    recv_exact_first_n_bytes [of 3 "fresh_sock [[1], [2]]"]
  by (simp add: fresh_sock_def)

lemma recv_message_try_header:
  assumes h: "length h = 4" and c: "concat (inbound s) = h @ rest"
  shows "recv_message_try s =
     (if be_decode h > 1024 * 1024 * 100 then (Inl ValueError, snd (recv_exact 4 s))
      else (case recv_exact (int (be_decode h)) (snd (recv_exact 4 s)) of
              (Inl e, s2) \<Rightarrow> (Inl e, s2)
            | (Inr message_data, s2) \<Rightarrow> (Inr (Some message_data), s2)))"
proof -
  have "fst (recv_exact 4 s) = Inr h"
    using h c by (simp add: recv_exact_fst)
  then obtain s1 where "recv_exact 4 s = (Inr h, s1)"
    by (cases "recv_exact 4 s") auto
  then show ?thesis using h
    by (simp add: recv_message_try_def struct_unpack_I_def)
qed

lemma recv_exact_after_header:
  assumes h: "length h = 4" and c: "concat (inbound s) = h @ rest"
  shows "concat (inbound (snd (recv_exact 4 s))) = rest"
  using recv_exact_inbound [of 4 s] h c by simp

text \<open>
  C4. When the stream ends after only two of the four header bytes, the exact read of
  the header raises \<open>ConnectionError\<close> inside \<open>recv_message\<close>, which returns \<open>None\<close>: no
  payload and no length is produced.
\<close>

theorem recv_message_premature_close:
  "length (concat (inbound s)) = 2 \<Longrightarrow>
     fst (recv_message_try s) = Inl ConnectionError \<and> fst (recv_message s) = Inr None"
proof -
  assume "length (concat (inbound s)) = 2"
  then have "fst (recv_exact 4 s) = Inl ConnectionError"
    by (simp add: recv_exact_fst)
  then obtain s1 where "recv_exact 4 s = (Inl ConnectionError, s1)"
    by (cases "recv_exact 4 s") auto
  then show ?thesis
    by (simp add: recv_message_def recv_message_try_def)
qed

theorem recv_message_premature_close_witness:
  "length (concat (inbound (fresh_sock [[0], [5]]))) = 2 \<and>
   fst (recv_message_try (fresh_sock [[0], [5]])) = Inl ConnectionError \<and>
   fst (recv_message (fresh_sock [[0], [5]])) = Inr None"
  using recv_message_premature_close [of "fresh_sock [[0], [5]]"]
  by (simp add: fresh_sock_def)

text \<open>
  C3. With a four-byte header \<open>h\<close> at the front of the stream: a declared length above
  104,857,600 makes \<open>recv_message\<close> fail with \<open>ValueError\<close> (the message-too-large
  failure) and return \<open>None\<close>, the socket being left as it was right after the header
  was read, so no payload byte is read; a declared length up to 104,857,600 is accepted
  and the payload is read with \<open>recv_exact\<close>.
\<close>

theorem recv_message_ceiling:
  "length h = 4 \<Longrightarrow> concat (inbound s) = h @ rest \<Longrightarrow>
     (if be_decode h > 104857600
      then fst (recv_message_try s) = Inl ValueError \<and>
           recv_message s = (Inr None, snd (recv_exact 4 s)) \<and>
           concat (inbound (snd (recv_message s))) = rest
      else fst (recv_message_try s) =
             (if be_decode h \<le> length rest then Inr (Some (take (be_decode h) rest))
              else Inl ConnectionError))"
proof -
  assume h: "length h = 4" and c: "concat (inbound s) = h @ rest"
  note t = recv_message_try_header [OF h c]
  note r = recv_exact_after_header [OF h c]
  show ?thesis
  proof (cases "be_decode h > 104857600")
    case True
    then show ?thesis using t r by (simp add: recv_message_def)
  next
    case False
    have "fst (recv_message_try s) =
          (case fst (recv_exact (int (be_decode h)) (snd (recv_exact 4 s))) of
             Inl e \<Rightarrow> Inl e | Inr d \<Rightarrow> Inr (Some d))"
      using False t by (simp split: prod.splits sum.splits)
    then show ?thesis using False r by (simp add: recv_exact_fst)
  qed
qed

theorem recv_message_ceiling_witness:
  "fst (recv_message_try (fresh_sock [[6, 64], [0, 1, 9]])) = Inl ValueError \<and>
   fst (recv_message (fresh_sock [[6, 64], [0, 1, 9]])) = Inr None \<and>
   concat (inbound (snd (recv_message (fresh_sock [[6, 64], [0, 1, 9]])))) = [9] \<and>
   fst (recv_message_try (fresh_sock [[6, 64], [0, 0, 9]])) = Inl ConnectionError \<and>
   fst (recv_message_try (fresh_sock [[0, 0], [0, 2, 7], [8, 9]])) = Inr (Some [7, 8])"
  using recv_message_ceiling [of "[6, 64, 0, 1]" "fresh_sock [[6, 64], [0, 1, 9]]" "[9]"]
    recv_message_ceiling [of "[6, 64, 0, 0]" "fresh_sock [[6, 64], [0, 0, 9]]" "[9]"]
    recv_message_ceiling [of "[0, 0, 0, 2]" "fresh_sock [[0, 0], [0, 2, 7], [8, 9]]" "[7, 8, 9]"]
  by (auto simp: fresh_sock_def be_decode_def)

section \<open>Properties of the framed-message channel\<close>

lemma recv_message_try_fst:
  assumes h: "length h = 4" and c: "concat (inbound s) = h @ rest"
  shows "fst (recv_message_try s) =
     (if be_decode h > 104857600 then Inl ValueError
      else if be_decode h \<le> length rest then Inr (Some (take (be_decode h) rest))
      else Inl ConnectionError)"
proof (cases "be_decode h > 104857600")
  case True
  then show ?thesis using recv_message_try_header [OF h c] by simp
next
  case False
  have "fst (recv_message_try s) =
        (case fst (recv_exact (int (be_decode h)) (snd (recv_exact 4 s))) of
           Inl e \<Rightarrow> Inl e | Inr d \<Rightarrow> Inr (Some d))"
    using False recv_message_try_header [OF h c] by (simp split: prod.splits sum.splits)
  then show ?thesis using False recv_exact_after_header [OF h c] by (simp add: recv_exact_fst)
qed

lemma recv_message_fst:
  "fst (recv_message s) =
     (case fst (recv_message_try s) of
        Inl e \<Rightarrow> if is_Exception e then Inr None else Inl e
      | Inr r \<Rightarrow> Inr r)"
  by (simp add: recv_message_def split: prod.splits sum.splits)

lemma send_message_fst:
  "fst (send_message message s) =
     (case fst (send_message_try message s) of
        Inl e \<Rightarrow> if is_Exception e then Inr False else Inl e
      | Inr r \<Rightarrow> Inr r)"
  by (simp add: send_message_def split: prod.splits sum.splits)

lemma recv_exact_error: "fst (recv_exact n s) = Inl e \<Longrightarrow> e = ConnectionError"
  by (simp add: recv_exact_fst split: if_splits)

lemma recv_message_try_error: "fst (recv_message_try s) = Inl e \<Longrightarrow> is_Exception e"
proof -
  assume a: "fst (recv_message_try s) = Inl e"
  obtain r1 s1 where r1: "recv_exact 4 s = (r1, s1)" by (cases "recv_exact 4 s")
  show ?thesis
  proof (cases r1)
    case (Inl e1)
    with r1 recv_exact_error [of 4 s e1] a show ?thesis
      by (simp add: recv_message_try_def)
  next
    case (Inr length_header)
    show ?thesis
    proof (cases "struct_unpack_I length_header")
      case (Inl e2)
      then have "e2 = struct_error" by (simp add: struct_unpack_I_def split: if_splits)
      with Inl Inr r1 a show ?thesis by (simp add: recv_message_try_def)
    next
      case m: (Inr message_length)
      obtain r2 s2 where r2: "recv_exact (int message_length) s1 = (r2, s2)"
        by (cases "recv_exact (int message_length) s1")
      show ?thesis
      proof (cases r2)
        case (Inl e3)
        with r2 recv_exact_error [of "int message_length" s1 e3] have "e3 = ConnectionError"
          by simp
        with Inl Inr m r1 r2 a show ?thesis
          by (auto simp: recv_message_try_def split: if_splits)
      next
        case d: (Inr message_data)
        with Inr m r1 r2 a show ?thesis
          by (auto simp: recv_message_try_def split: if_splits)
      qed
    qed
  qed
qed

lemma sock_sendall_error: "fst (sock_sendall data s) = Inl e \<Longrightarrow> e = OSError"
  by (auto simp: sock_sendall_def split: option.splits if_splits)

lemma utf8_encode_error: "utf8_encode t = Inl e \<Longrightarrow> e = UnicodeEncodeError"
  by (induction t) (auto simp: utf8_encode_cp_def split: sum.splits if_splits)

lemma message_bytes_of_error: "message_bytes_of message = Inl e \<Longrightarrow> is_Exception e"
  by (cases message) (auto dest: utf8_encode_error)

lemma send_message_try_error: "fst (send_message_try message s) = Inl e \<Longrightarrow> is_Exception e"
proof -
  assume a: "fst (send_message_try message s) = Inl e"
  show ?thesis
  proof (cases "message_bytes_of message")
    case (Inl e1)
    with a message_bytes_of_error [of message e1] show ?thesis
      by (simp add: send_message_try_def)
  next
    case b: (Inr message_bytes)
    show ?thesis
    proof (cases "struct_pack_I (length message_bytes)")
      case (Inl e2)
      then have "e2 = struct_error" by (simp add: struct_pack_I_def split: if_splits)
      with Inl b a show ?thesis by (simp add: send_message_try_def)
    next
      case hd: (Inr length_header)
      obtain r1 s1 where r1: "sock_sendall length_header s = (r1, s1)"
        by (cases "sock_sendall length_header s")
      obtain r2 s2 where r2: "sock_sendall message_bytes s1 = (r2, s2)"
        by (cases "sock_sendall message_bytes s1")
      from r1 have e1: "r1 = Inl x \<Longrightarrow> x = OSError" for x
        using sock_sendall_error [of length_header s x] by simp
      from r2 have e2: "r2 = Inl x \<Longrightarrow> x = OSError" for x
        using sock_sendall_error [of message_bytes s1 x] by simp
      show ?thesis using a b hd r1 r2 e1 e2
        by (cases r1; cases r2) (auto simp: send_message_try_def)
    qed
  qed
qed

text \<open>
  C5. \<open>send_message\<close> and \<open>recv_message\<close> never raise: whatever the message and the
  socket, and whichever failure their \<open>try\<close> body meets (connection closed, length
  above the ceiling, write error, a length that does not fit the header, a value that
  cannot be encoded), \<open>send_message\<close> returns \<open>True\<close> or \<open>False\<close> and \<open>recv_message\<close>
  returns the payload or \<open>None\<close>.
\<close>

theorem channel_never_raises:
  "\<not> isl (fst (send_message message s)) \<and>
   \<not> isl (fst (recv_message s)) \<and>
   fst (send_message message s) =
     (case fst (send_message_try message s) of Inl e \<Rightarrow> Inr False | Inr r \<Rightarrow> Inr r) \<and>
   fst (recv_message s) =
     (case fst (recv_message_try s) of Inl e \<Rightarrow> Inr None | Inr r \<Rightarrow> Inr r)"
proof -
  have 1: "fst (send_message message s) =
     (case fst (send_message_try message s) of Inl e \<Rightarrow> Inr False | Inr r \<Rightarrow> Inr r)"
    using send_message_try_error [of message s]
    by (simp add: send_message_fst split: sum.splits)
  have 2: "fst (recv_message s) =
     (case fst (recv_message_try s) of Inl e \<Rightarrow> Inr None | Inr r \<Rightarrow> Inr r)"
    using recv_message_try_error [of s]
    by (simp add: recv_message_fst split: sum.splits)
  from 1 have 3: "\<not> isl (fst (send_message message s))" by (simp split: sum.splits)
  from 2 have 4: "\<not> isl (fst (recv_message s))" by (simp split: sum.splits)
  from 1 2 3 4 show ?thesis by blast
qed

lemma sock_sendall_ok:
  "writable s (length data + n) \<Longrightarrow>
     \<exists>s'. sock_sendall data s = (Inr (), s') \<and> outbound s' = outbound s @ data \<and>
          writable s' n \<and> inbound s' = inbound s \<and> recv_calls s' = recv_calls s"
  by (auto simp: sock_sendall_def writable_def split: option.splits)

lemma send_message_try_bytes:
  assumes len: "length p < 2 ^ 32" and w: "writable s (4 + length p)"
  shows "\<exists>s'. send_message_try (PyBytes p) s = (Inr True, s') \<and>
              outbound s' = outbound s @ be_encode 4 (length p) @ p \<and>
              inbound s' = inbound s \<and> recv_calls s' = recv_calls s"
proof -
  have "writable s (length (be_encode 4 (length p)) + length p)"
    using w by (simp add: length_be_encode)
  from sock_sendall_ok [OF this] obtain s1 where
    s1: "sock_sendall (be_encode 4 (length p)) s = (Inr (), s1)"
      "outbound s1 = outbound s @ be_encode 4 (length p)" "writable s1 (length p)"
      "inbound s1 = inbound s" "recv_calls s1 = recv_calls s"
    by blast
  from s1(3) have "writable s1 (length p + 0)" by simp
  from sock_sendall_ok [OF this] obtain s2 where
    s2: "sock_sendall p s1 = (Inr (), s2)" "outbound s2 = outbound s1 @ p"
      "inbound s2 = inbound s1" "recv_calls s2 = recv_calls s1"
    by blast
  have "send_message_try (PyBytes p) s = (Inr True, s2)"
    using len s1(1) s2(1) by (simp add: send_message_try_def struct_pack_I_def)
  then show ?thesis using s1 s2 by simp
qed

lemma send_message_bytes:
  assumes len: "length p < 2 ^ 32" and w: "writable s (4 + length p)"
  shows "\<exists>s'. send_message (PyBytes p) s = (Inr True, s') \<and>
              outbound s' = outbound s @ be_encode 4 (length p) @ p"
  using send_message_try_bytes [OF len w] by (auto simp: send_message_def)

lemma send_message_too_long:
  "2 ^ 32 \<le> length p \<Longrightarrow> send_message (PyBytes p) s = (Inr False, s)"
  by (simp add: send_message_def send_message_try_def struct_pack_I_def)

lemma be_encode_4:
  "be_encode 4 n =
     [of_nat (n div 256 div 256 div 256 mod 256), of_nat (n div 256 div 256 mod 256),
      of_nat (n div 256 mod 256), of_nat (n mod 256)]"
proof -
  have "(4::nat) = Suc (Suc (Suc (Suc 0)))" by simp
  then show ?thesis by (simp only: be_encode.simps append.simps)
qed

text \<open>
  C10. The sending side has no ceiling: for every payload shorter than \<open>2 ^ 32\<close> bytes,
  also one longer than 104,857,600 bytes, \<open>send_message\<close> writes the four-byte header and
  the payload and returns \<open>True\<close> when the transport accepts the bytes; for every payload
  of \<open>2 ^ 32\<close> bytes or more it returns \<open>False\<close> and writes nothing, because
  \<open>struct.pack\<close> cannot encode the length.
\<close>

theorem send_message_no_ceiling:
  "(length p < 2 ^ 32 \<and> writable s (4 + length p) \<longrightarrow>
      fst (send_message (PyBytes p) s) = Inr True \<and>
      outbound (snd (send_message (PyBytes p) s)) = outbound s @ be_encode 4 (length p) @ p) \<and>
   (2 ^ 32 \<le> length p \<longrightarrow> send_message (PyBytes p) s = (Inr False, s))"
  using send_message_bytes [of p s] send_message_too_long [of p s] by auto

theorem send_message_no_ceiling_witness:
  "fst (send_message (PyBytes (replicate 104857601 0)) (fresh_sock [])) = Inr True \<and>
   send_message (PyBytes (replicate (2 ^ 32) 0)) (fresh_sock []) = (Inr False, fresh_sock [])"
proof -
  have l1: "length (replicate 104857601 (0::byte)) < 2 ^ 32"
    by (simp only: length_replicate) simp
  have w1: "writable (fresh_sock []) (4 + length (replicate 104857601 (0::byte)))"
    unfolding writable_def fresh_sock_def by (simp only: sock.simps option.case)
  have l2: "2 ^ 32 \<le> length (replicate (2 ^ 32) (0::byte))"
    by (simp only: length_replicate order_refl)
  from send_message_no_ceiling [of "replicate 104857601 0" "fresh_sock []"] l1 w1
  have a: "fst (send_message (PyBytes (replicate 104857601 0)) (fresh_sock [])) = Inr True"
    by blast
  from send_message_no_ceiling [of "replicate (2 ^ 32) 0" "fresh_sock []"] l2
  have b: "send_message (PyBytes (replicate (2 ^ 32) 0)) (fresh_sock []) = (Inr False, fresh_sock [])"
    by blast
  from a b show ?thesis by (rule conjI)
qed

text \<open>
  C1. A payload of at most 104,857,600 bytes that \<open>send_message\<close> writes to a socket
  whose transport accepts it is returned unchanged by \<open>recv_message\<close> on a socket whose
  stream starts with the bytes just written, however the transport cuts them into
  segments.
\<close>

theorem send_recv_roundtrip:
  "length p \<le> 104857600 \<Longrightarrow> writable a (4 + length p) \<Longrightarrow>
   concat (inbound b) =
     drop (length (outbound a)) (outbound (snd (send_message (PyBytes p) a))) @ rest \<Longrightarrow>
   fst (send_message (PyBytes p) a) = Inr True \<and> fst (recv_message b) = Inr (Some p)"
proof -
  assume len: "length p \<le> 104857600" and w: "writable a (4 + length p)"
    and c: "concat (inbound b) =
      drop (length (outbound a)) (outbound (snd (send_message (PyBytes p) a))) @ rest"
  have lt: "length p < 2 ^ 32" using len by simp
  from send_message_bytes [OF lt w] obtain a' where
    a': "send_message (PyBytes p) a = (Inr True, a')"
      "outbound a' = outbound a @ be_encode 4 (length p) @ p"
    by blast
  have c': "concat (inbound b) = be_encode 4 (length p) @ (p @ rest)"
    using c a' by simp
  have d: "be_decode (be_encode 4 (length p)) = length p"
    using lt by (simp add: be_decode_encode)
  have "fst (recv_message_try b) = Inr (Some p)"
    using recv_message_try_fst [OF length_be_encode c'] len d by simp
  then show ?thesis using a' by (simp add: recv_message_fst)
qed

theorem send_recv_roundtrip_witness:
  "fst (send_message (PyBytes [7, 8, 9]) (fresh_sock [])) = Inr True \<and>
   fst (recv_message (fresh_sock [[0], [0, 0], [3, 7], [8], [9, 1]])) = Inr (Some [7, 8, 9])"
proof -
  have o: "outbound (snd (send_message (PyBytes [7, 8, 9]) (fresh_sock []))) =
           [0, 0, 0, 3, 7, 8, 9]"
    by (simp add: send_message_def send_message_try_def struct_pack_I_def sock_sendall_def
        fresh_sock_def be_encode_4)
  have w: "writable (fresh_sock []) (4 + length [7, 8, 9 :: byte])"
    by (simp add: writable_def fresh_sock_def)
  have c: "concat (inbound (fresh_sock [[0], [0, 0], [3, 7], [8], [9, 1]])) =
     drop (length (outbound (fresh_sock [])))
       (outbound (snd (send_message (PyBytes [7, 8, 9]) (fresh_sock [])))) @ [1]"
    unfolding o by (simp add: fresh_sock_def)
  have l: "length [7, 8, 9 :: byte] \<le> 104857600" by simp
  show ?thesis
    using send_recv_roundtrip [OF l w c] .
qed

section \<open>Text payloads\<close>

lemma send_message_str:
  "send_message (PyStr t) s =
     (case utf8_encode t of
        Inl e \<Rightarrow> (Inr False, s)
      | Inr b \<Rightarrow> send_message (PyBytes b) s)"
proof (cases "utf8_encode t")
  case (Inl e)
  with utf8_encode_error [of t e] show ?thesis
    by (simp add: send_message_def send_message_try_def)
next
  case (Inr b)
  then show ?thesis by (simp add: send_message_def send_message_try_def)
qed

text \<open>
  C8, as the specification states it, fails: \<open>send_message\<close> itself encodes a \<open>str\<close>
  payload. Handed the one-character text U+00E9, it puts the two bytes of its UTF-8
  form on the wire behind a header that counts two bytes.
\<close>

theorem send_message_encodes_text_counterexample:
  "utf8_encode [233] = Inr [195, 169] \<and>
   send_message (PyStr [233]) (fresh_sock []) =
     (Inr True,
      \<lparr>inbound = [], outbound = [0, 0, 0, 2, 195, 169], wlimit = None, recv_calls = 0\<rparr>)"
  by (simp add: utf8_encode_cp_def send_message_def send_message_try_def struct_pack_I_def
      sock_sendall_def fresh_sock_def be_encode_4)

text \<open>
  C8, amended. The channel carries bytes unchanged: \<open>send_message\<close> writes a \<open>bytes\<close>
  payload as it is behind its header, and \<open>recv_message\<close> returns the payload bytes of
  the stream as they are, without decoding them. A \<open>str\<close> payload is encoded to UTF-8
  by \<open>send_message\<close> itself and then sent like the bytes; \<open>send_message\<close> returns
  \<open>False\<close> when the text cannot be encoded.
\<close>

theorem channel_bytes_unchanged_text_encoded_by_send:
  "send_message (PyStr t) s =
     (case utf8_encode t of
        Inl e \<Rightarrow> (Inr False, s)
      | Inr b \<Rightarrow> send_message (PyBytes b) s) \<and>
   (length p < 2 ^ 32 \<and> writable s (4 + length p) \<longrightarrow>
      outbound (snd (send_message (PyBytes p) s)) = outbound s @ be_encode 4 (length p) @ p) \<and>
   (length h = 4 \<and> concat (inbound s) = h @ rest \<and> be_decode h \<le> 104857600 \<and>
    be_decode h \<le> length rest \<longrightarrow>
      fst (recv_message s) = Inr (Some (take (be_decode h) rest)))"
proof -
  have 1: "length p < 2 ^ 32 \<and> writable s (4 + length p) \<longrightarrow>
      outbound (snd (send_message (PyBytes p) s)) = outbound s @ be_encode 4 (length p) @ p"
    using send_message_bytes [of p s] by auto
  have 2: "length h = 4 \<and> concat (inbound s) = h @ rest \<and> be_decode h \<le> 104857600 \<and>
    be_decode h \<le> length rest \<longrightarrow>
      fst (recv_message s) = Inr (Some (take (be_decode h) rest))"
    using recv_message_try_fst [of h s rest] by (simp add: recv_message_fst)
  from send_message_str [of t s] 1 2 show ?thesis by blast
qed

theorem channel_bytes_unchanged_text_encoded_by_send_witness:
  "send_message (PyStr [233]) (fresh_sock []) = send_message (PyBytes [195, 169]) (fresh_sock []) \<and>
   outbound (snd (send_message (PyBytes [195, 169]) (fresh_sock []))) = [0, 0, 0, 2, 195, 169] \<and>
   fst (recv_message (fresh_sock [[0, 0, 0], [2, 195], [169]])) = Inr (Some [195, 169])"
proof -
  have e: "utf8_encode [233] = Inr [195, 169]"
    by (simp add: utf8_encode_cp_def)
  have w: "length [195, 169 :: byte] < 2 ^ 32 \<and>
           writable (fresh_sock []) (4 + length [195, 169 :: byte])"
    by (simp add: writable_def fresh_sock_def)
  have r: "length [0, 0, 0, 2 :: byte] = 4 \<and>
           concat (inbound (fresh_sock [[0, 0, 0], [2, 195], [169]])) = [0, 0, 0, 2] @ [195, 169] \<and>
           be_decode [0, 0, 0, 2] \<le> 104857600 \<and> be_decode [0, 0, 0, 2] \<le> length [195, 169 :: byte]"
    by (simp add: fresh_sock_def be_decode_def)
  have d: "be_decode [0, 0, 0, 2] = 2" by (simp add: be_decode_def)
  from channel_bytes_unchanged_text_encoded_by_send
    [of "[233]" "fresh_sock []" "[195, 169]" "[0, 0, 0, 2]" "[195, 169]"] e w r
  have "send_message (PyStr [233]) (fresh_sock []) =
          send_message (PyBytes [195, 169]) (fresh_sock [])"
    and "outbound (snd (send_message (PyBytes [195, 169]) (fresh_sock []))) =
          outbound (fresh_sock []) @ be_encode 4 (length [195, 169 :: byte]) @ [195, 169]"
    by simp_all
  moreover
  from channel_bytes_unchanged_text_encoded_by_send
    [of "[233]" "fresh_sock [[0, 0, 0], [2, 195], [169]]" "[195, 169]" "[0, 0, 0, 2]" "[195, 169]"] r d
  have "fst (recv_message (fresh_sock [[0, 0, 0], [2, 195], [169]])) = Inr (Some [195, 169])"
    by simp
  ultimately show ?thesis by (simp add: fresh_sock_def be_encode_4)
qed

section \<open>Properties of the listener's script\<close>

lemma split_sep_no_sep: "sep \<notin> set r \<Longrightarrow> split_sep sep r = [r]"
  by (induction r) auto

lemma split_sep_three_has_sep: "length (split_sep sep r) = 3 \<Longrightarrow> sep \<in> set r"
  by (rule ccontr) (simp add: split_sep_no_sep)

lemma utf8_take_ascii: "unat b < 128 \<Longrightarrow> utf8_take (b # bs) = Inr (unat b, 0)"
  by (simp add: utf8_take_def Let_def cont_value_def)

lemma utf8_decode_ascii: "list_all (\<lambda>b. unat b < 128) bs \<Longrightarrow> utf8_decode bs = Inr (map unat bs)"
proof (induction bs)
  case Nil
  show ?case by (subst utf8_decode.simps) simp
next
  case (Cons b bs)
  then have "utf8_decode bs = Inr (map unat bs)" and "unat b < 128" by simp_all
  then show ?case
    by (subst utf8_decode.simps) (simp add: utf8_take_ascii)
qed

lemma send_message_returns: "\<exists>b. fst (send_message message s) = Inr b"
  using send_message_try_error [of message s]
  by (cases "fst (send_message_try message s)") (auto simp: send_message_fst)

lemma send_file_loop_error:
  "fst (send_file_loop f bytes_sent file_size s) = Inl e \<Longrightarrow> e = OSError"
proof (induction f bytes_sent file_size s rule: send_file_loop.induct)
  case (1 f bytes_sent file_size s)
  let ?k = "min chunk_size (file_size - bytes_sent)"
  show ?case
  proof (cases "bytes_sent < file_size \<and> take ?k f \<noteq> []")
    case False
    with "1.prems" show ?thesis
      by (subst (asm) send_file_loop.simps) (auto simp: Let_def split: if_splits)
  next
    case True
    then have c1: "bytes_sent < file_size" and c2: "take ?k f \<noteq> []" by blast+
    obtain r s' where r: "sock_sendall (take ?k f) s = (r, s')"
      by (cases "sock_sendall (take ?k f) s")
    have step: "send_file_loop f bytes_sent file_size s =
        (case sock_sendall (take ?k f) s of
           (Inl e, s') \<Rightarrow> (Inl e, s')
         | (Inr _, s') \<Rightarrow>
             send_file_loop (drop ?k f) (bytes_sent + length (take ?k f)) file_size s')"
      by (subst send_file_loop.simps) (simp only: Let_def c1 c2 if_True if_False)
    show ?thesis
    proof (cases r)
      case (Inl x)
      with r sock_sendall_error [of "take ?k f" s x] have "x = OSError" by simp
      moreover have "fst (send_file_loop f bytes_sent file_size s) = Inl x"
        unfolding step r Inl by simp
      ultimately show ?thesis using "1.prems" by simp
    next
      case (Inr u)
      have "send_file_loop f bytes_sent file_size s =
            send_file_loop (drop ?k f) (bytes_sent + length (take ?k f)) file_size s'"
        unfolding step r Inr by simp
      with "1.prems"
      have "fst (send_file_loop (drop ?k f) (bytes_sent + length (take ?k f)) file_size s') = Inl e"
        by simp
      with "1.IH" [OF c1 refl refl refl c2 r [symmetric] Inr] show ?thesis by simp
    qed
  qed
qed

lemma send_message_not_raised: "send_message message s = (Inl e, s') \<Longrightarrow> False"
  using send_message_returns [of message s] by auto

lemma sock_sendall_raised: "sock_sendall data s = (Inl e, s') \<Longrightarrow> e = OSError"
  using sock_sendall_error [of data s e] by simp

lemma send_file_loop_raised:
  "send_file_loop f bytes_sent file_size s = (Inl e, s') \<Longrightarrow> e = OSError"
  using send_file_loop_error [of f bytes_sent file_size s e] by simp

lemma send_file_try_error: "fst (send_file_try fs s file_path) = Inl e \<Longrightarrow> is_Exception e"
  by (auto simp: send_file_try_def Let_def os_path_getsize_def struct_pack_Q_def open_rb_def
      split: if_splits sum.splits prod.splits option.splits
      dest: send_message_not_raised sock_sendall_raised send_file_loop_raised)

lemma send_file_returns: "\<exists>b. fst (send_file fs s file_path) = Inr b"
  using send_file_try_error [of fs s file_path]
  by (cases "fst (send_file_try fs s file_path)")
     (auto simp: send_file_def split: prod.splits sum.splits)

lemma send_file_not_raised: "send_file fs s file_path = (Inl e, s') \<Longrightarrow> False"
  using send_file_returns [of fs s file_path] by auto

lemma listener_identified_fst:
  "fst (listener_identified fs conn parts) = Inr (Completed (parts ! 0) (parts ! 1) (parts ! 2))"
  by (auto simp: listener_identified_def Let_def split: prod.splits sum.splits
      dest: send_message_not_raised send_file_not_raised)

lemma listener_identified_no_file:
  "\<not> os_path_exists fs test_file \<Longrightarrow>
   listener_identified fs conn parts =
     (Inr (Completed (parts ! 0) (parts ! 1) (parts ! 2)),
      snd (send_message (PyStr large_message) conn))"
  by (auto simp: listener_identified_def Let_def split: prod.splits sum.splits
      dest: send_message_not_raised)

lemma error_reply:
  "(case send_message (PyStr msg) conn of
      (Inl e, c1) \<Rightarrow> (Inl e, c1)
    | (Inr _, c1) \<Rightarrow> (Inr end_state, c1)) =
   (Inr end_state, snd (send_message (PyStr msg) conn))"
  by (auto split: prod.splits sum.splits dest: send_message_not_raised)

lemma listener_response_nonempty:
  assumes "d \<noteq> []" and "utf8_decode d = Inr r"
  shows "listener_response fs conn (Some d) =
     (if length (split_sep 43 r) = 3 then listener_identified fs conn (split_sep 43 r)
      else if 43 \<in> set r
        then (Inr Invalid_Format, snd (send_message (PyStr error_invalid_format) conn))
        else (Inr Missing_Separator, snd (send_message (PyStr error_missing_separator) conn)))"
  using assms split_sep_three_has_sep [of 43 r]
  by (auto simp: listener_response_def Let_def error_reply)

lemma listener_after_identity:
  assumes "fst (send_message (PyStr hello_message) conn) = Inr True"
    and "fst (recv_message (snd (send_message (PyStr hello_message) conn))) = Inr client_data"
  shows "listener fs conn =
           listener_response fs
             (snd (recv_message (snd (send_message (PyStr hello_message) conn)))) client_data"
  using assms by (auto simp: listener_def split: prod.splits sum.splits)

lemma error_texts:
  "take 6 error_invalid_format = str_lit ''ERROR:'' \<and>
   take 6 error_missing_separator = str_lit ''ERROR:''"
  by (simp add: error_invalid_format_def error_missing_separator_def str_lit_def)

lemma recv_message_frame: "outbound (snd (recv_message s)) = outbound s"
proof -
  obtain r1 s1 where r1: "recv_exact 4 s = (r1, s1)" by (cases "recv_exact 4 s")
  then have o1: "outbound s1 = outbound s" using recv_exact_frame [of 4 s] by simp
  have o2: "recv_exact n s1 = (r, s2) \<Longrightarrow> outbound s2 = outbound s" for n r s2
    using recv_exact_frame [of n s1] o1 by simp
  have "outbound (snd (recv_message_try s)) = outbound s"
    using r1 o1
    by (auto simp: recv_message_try_def split: sum.splits prod.splits dest: o2)
  then show ?thesis
    by (auto simp: recv_message_def split: sum.splits prod.splits)
qed

lemma utf8_encode_hello: "utf8_encode hello_message = Inr [72, 101, 108, 108, 111]"
  by (simp add: hello_message_def str_lit_def utf8_encode_cp_def)

lemma send_hello:
  "writable conn 9 \<Longrightarrow>
     fst (send_message (PyStr hello_message) conn) = Inr True \<and>
     outbound (snd (send_message (PyStr hello_message) conn)) =
       outbound conn @ [0, 0, 0, 5, 72, 101, 108, 108, 111] \<and>
     inbound (snd (send_message (PyStr hello_message) conn)) = inbound conn"
proof -
  assume "writable conn 9"
  then have w: "writable conn (4 + length [72, 101, 108, 108, 111 :: byte])" by simp
  have l: "length [72, 101, 108, 108, 111 :: byte] < 2 ^ 32" by simp
  from send_message_try_bytes [OF l w] obtain s' where
    "send_message_try (PyBytes [72, 101, 108, 108, 111]) conn = (Inr True, s')"
    "outbound s' = outbound conn @ be_encode 4 (length [72, 101, 108, 108, 111 :: byte]) @
       [72, 101, 108, 108, 111]"
    "inbound s' = inbound conn"
    by blast
  moreover have "send_message (PyStr hello_message) conn =
                 send_message (PyBytes [72, 101, 108, 108, 111]) conn"
    by (simp add: send_message_str utf8_encode_hello)
  ultimately show ?thesis
    by (simp add: send_message_def be_encode_4)
qed

lemma recv_identity:
  assumes "writable conn 9" and "length h = 4"
    and "concat (inbound conn) = h @ rest" and "be_decode h \<le> 104857600"
    and "be_decode h \<le> length rest"
  shows "fst (recv_message (snd (send_message (PyStr hello_message) conn))) =
           Inr (Some (take (be_decode h) rest))"
proof -
  have "concat (inbound (snd (send_message (PyStr hello_message) conn))) = h @ rest"
    using send_hello [OF assms(1)] assms(3) by simp
  from recv_message_try_fst [OF assms(2) this] assms(4,5) show ?thesis
    by (simp add: recv_message_fst)
qed

text \<open>
  C6, as the specification states it, fails at the empty identity string: it does not
  split into three fields, yet the listener answers nothing. \<^verbatim>\<open>if client_data:\<close> is
  false for the empty payload, so the script ends in the branch "no valid response"
  and the greeting is the only envelope it has written.
\<close>

theorem listener_empty_identity_counterexample:
  "utf8_decode [] = Inr [] \<and> length (split_sep 43 []) \<noteq> 3 \<and>
   fst (listener \<lparr>files = [], dirs = [], unwritable = []\<rparr> (fresh_sock [[0, 0, 0, 0]])) =
     Inr No_Valid_Response \<and>
   outbound (snd (listener \<lparr>files = [], dirs = [], unwritable = []\<rparr> (fresh_sock [[0, 0, 0, 0]]))) =
     [0, 0, 0, 5, 72, 101, 108, 108, 111]"
proof -
  let ?fs = "\<lparr>files = [], dirs = [], unwritable = []\<rparr>"
  let ?conn = "fresh_sock [[0, 0, 0, 0]]"
  have w: "writable ?conn 9" by (simp add: writable_def fresh_sock_def)
  have c: "concat (inbound ?conn) = [0, 0, 0, 0] @ []" by (simp add: fresh_sock_def)
  have d: "be_decode [0, 0, 0, 0] = 0" by (simp add: be_decode_def)
  have r: "fst (recv_message (snd (send_message (PyStr hello_message) ?conn))) = Inr (Some [])"
    using recv_identity [OF w _ c] d by simp
  have "listener ?fs ?conn =
        (Inr No_Valid_Response, snd (recv_message (snd (send_message (PyStr hello_message) ?conn))))"
    using listener_after_identity [OF _ r] send_hello [OF w]
    by (simp add: listener_response_def)
  moreover have "utf8_decode [] = Inr []" by (subst utf8_decode.simps) simp
  ultimately show ?thesis
    using send_hello [OF w] by (simp add: recv_message_frame fresh_sock_def)
qed

text \<open>
  C6, amended. For every non-empty identity payload that decodes to the string \<open>r\<close>,
  received after the greeting was sent: when \<open>r\<close> splits at \<^verbatim>\<open>+\<close> into exactly three
  fields the script ends with these three fields as port, machine and address, and
  without a test file the last thing it sends is the large message; for any other field
  count it ends in one of the two format-error branches, and all it sends after the
  identity is one envelope whose text starts with \<^verbatim>\<open>ERROR:\<close>, so the large message is
  not sent.
\<close>

theorem listener_identity_parse:
  "fst (send_message (PyStr hello_message) conn) = Inr True \<Longrightarrow>
   fst (recv_message (snd (send_message (PyStr hello_message) conn))) = Inr (Some d) \<Longrightarrow>
   c2 = snd (recv_message (snd (send_message (PyStr hello_message) conn))) \<Longrightarrow>
   d \<noteq> [] \<Longrightarrow> utf8_decode d = Inr r \<Longrightarrow>
   (if length (split_sep 43 r) = 3
    then fst (listener fs conn) =
           Inr (Completed (split_sep 43 r ! 0) (split_sep 43 r ! 1) (split_sep 43 r ! 2)) \<and>
         (\<not> os_path_exists fs test_file \<longrightarrow>
            snd (listener fs conn) = snd (send_message (PyStr large_message) c2))
    else listener fs conn =
           (if 43 \<in> set r
            then (Inr Invalid_Format, snd (send_message (PyStr error_invalid_format) c2))
            else (Inr Missing_Separator, snd (send_message (PyStr error_missing_separator) c2)))) \<and>
   take 6 error_invalid_format = str_lit ''ERROR:'' \<and>
   take 6 error_missing_separator = str_lit ''ERROR:''"
proof -
  assume a: "fst (send_message (PyStr hello_message) conn) = Inr True"
    and b: "fst (recv_message (snd (send_message (PyStr hello_message) conn))) = Inr (Some d)"
    and c: "c2 = snd (recv_message (snd (send_message (PyStr hello_message) conn)))"
    and d: "d \<noteq> []" and r: "utf8_decode d = Inr r"
  have l: "listener fs conn = listener_response fs c2 (Some d)"
    using listener_after_identity [OF a b] c by simp
  note n = listener_response_nonempty [OF d r, of fs c2]
  show ?thesis
  proof (cases "length (split_sep 43 r) = 3")
    case True
    then have "listener fs conn = listener_identified fs c2 (split_sep 43 r)"
      using l n by simp
    then show ?thesis
      using True listener_identified_fst [of fs c2 "split_sep 43 r"]
        listener_identified_no_file [of fs c2 "split_sep 43 r"] error_texts
      by simp
  next
    case False
    then show ?thesis using l n error_texts by simp
  qed
qed

theorem listener_identity_parse_witness:
  "fst (listener \<lparr>files = [], dirs = [], unwritable = []\<rparr>
         (fresh_sock [[0, 0, 0, 19],
            [57, 48, 48, 49, 43, 104, 111, 115, 116, 65, 43, 49, 48, 46, 48, 46, 48, 46, 53]])) =
     Inr (Completed (str_lit ''9001'') (str_lit ''hostA'') (str_lit ''10.0.0.5'')) \<and>
   fst (listener \<lparr>files = [], dirs = [], unwritable = []\<rparr>
         (fresh_sock [[0, 0, 0, 10], [57, 48, 48, 49, 43, 104, 111, 115, 116, 65]])) =
     Inr Invalid_Format \<and>
   fst (listener \<lparr>files = [], dirs = [], unwritable = []\<rparr>
         (fresh_sock [[0, 0, 0, 19],
            [57, 48, 48, 49, 45, 104, 111, 115, 116, 65, 45, 49, 48, 46, 48, 46, 48, 46, 53]])) =
     Inr Missing_Separator"
proof -
  let ?fs = "\<lparr>files = [], dirs = [], unwritable = []\<rparr>"
  let ?d1 = "[57, 48, 48, 49, 43, 104, 111, 115, 116, 65, 43, 49, 48, 46, 48, 46, 48, 46, 53] :: bytes"
  let ?d2 = "[57, 48, 48, 49, 43, 104, 111, 115, 116, 65] :: bytes"
  let ?d3 = "[57, 48, 48, 49, 45, 104, 111, 115, 116, 65, 45, 49, 48, 46, 48, 46, 48, 46, 53] :: bytes"
  have w: "writable (fresh_sock segs) 9" for segs
    by (simp add: writable_def fresh_sock_def)
  have h19: "be_decode [0, 0, 0, 19] = 19" and h10: "be_decode [0, 0, 0, 10] = 10"
    by (simp_all add: be_decode_def)
  have r1: "fst (recv_message (snd (send_message (PyStr hello_message)
              (fresh_sock [[0, 0, 0, 19], ?d1])))) = Inr (Some ?d1)"
    using recv_identity [OF w, of "[0, 0, 0, 19]" "[[0, 0, 0, 19], ?d1]" ?d1] h19
    by (simp add: fresh_sock_def)
  have r2: "fst (recv_message (snd (send_message (PyStr hello_message)
              (fresh_sock [[0, 0, 0, 10], ?d2])))) = Inr (Some ?d2)"
    using recv_identity [OF w, of "[0, 0, 0, 10]" "[[0, 0, 0, 10], ?d2]" ?d2] h10
    by (simp add: fresh_sock_def)
  have r3: "fst (recv_message (snd (send_message (PyStr hello_message)
              (fresh_sock [[0, 0, 0, 19], ?d3])))) = Inr (Some ?d3)"
    using recv_identity [OF w, of "[0, 0, 0, 19]" "[[0, 0, 0, 19], ?d3]" ?d3] h19
    by (simp add: fresh_sock_def)
  have u1: "utf8_decode ?d1 = Inr (map unat ?d1)" by (rule utf8_decode_ascii) simp
  have u2: "utf8_decode ?d2 = Inr (map unat ?d2)" by (rule utf8_decode_ascii) simp
  have u3: "utf8_decode ?d3 = Inr (map unat ?d3)" by (rule utf8_decode_ascii) simp
  have a: "fst (send_message (PyStr hello_message) (fresh_sock segs)) = Inr True" for segs
    using send_hello [OF w, of segs] by simp
  have "fst (listener ?fs (fresh_sock [[0, 0, 0, 19], ?d1])) =
          Inr (Completed (str_lit ''9001'') (str_lit ''hostA'') (str_lit ''10.0.0.5''))"
    using listener_identity_parse [OF a r1 refl _ u1, of ?fs] by (simp add: str_lit_def)
  moreover have "fst (listener ?fs (fresh_sock [[0, 0, 0, 10], ?d2])) = Inr Invalid_Format"
    using listener_identity_parse [OF a r2 refl _ u2, of ?fs] by simp
  moreover have "fst (listener ?fs (fresh_sock [[0, 0, 0, 19], ?d3])) = Inr Missing_Separator"
    using listener_identity_parse [OF a r3 refl _ u3, of ?fs] by simp
  ultimately show ?thesis by blast
qed

section \<open>Properties of the file receiver\<close>

lemma map_of_file_write_other:
  "p \<noteq> path \<Longrightarrow> map_of (files (file_write fs path chunk)) p = map_of (files fs) p"
  by (simp add: file_write_def update_conv')

lemma map_of_file_write_same:
  "map_of (files fs) path = Some old \<Longrightarrow>
   map_of (files (file_write fs path chunk)) path = Some (old @ chunk)"
  by (simp add: file_write_def update_conv')

lemma open_wb_Inr:
  "open_wb fs path = Inr fs1 \<Longrightarrow>
     map_of (files fs1) path = Some [] \<and> dirs fs1 = dirs fs \<and> unwritable fs1 = unwritable fs \<and>
     (\<forall>p. p \<noteq> path \<longrightarrow> map_of (files fs1) p = map_of (files fs) p)"
  by (auto simp: open_wb_def update_conv' split: if_splits)

lemma open_wb_error: "open_wb fs path = Inl e \<Longrightarrow> is_Exception e"
  by (auto simp: open_wb_def split: if_splits)

lemma recv_file_loop_step:
  "recv_file_loop path bytes_received file_size s fs =
     (if bytes_received < file_size then
        (case recv_exact (int (min chunk_size (file_size - bytes_received))) s of
           (Inl e, s') \<Rightarrow> (Inl e, s', fs)
         | (Inr chunk, s') \<Rightarrow>
             recv_file_loop path (bytes_received + length chunk) file_size s'
               (file_write fs path chunk))
      else (Inr (), s, fs))"
  by (subst recv_file_loop.simps) (simp add: Let_def)

lemma recv_file_loop_zero: "recv_file_loop path 0 0 s fs = (Inr (), s, fs)"
  by (subst recv_file_loop_step) simp

lemma recv_file_loop_frame:
  "p \<noteq> path \<Longrightarrow>
   map_of (files (snd (snd (recv_file_loop path bytes_received file_size s fs)))) p =
     map_of (files fs) p"
proof (induction path bytes_received file_size s fs rule: recv_file_loop.induct)
  case (1 path br fsz s fs)
  show ?case
  proof (cases "br < fsz")
    case False
    then show ?thesis by (subst recv_file_loop_step) simp
  next
    case True
    obtain r s' where r: "recv_exact (int (min chunk_size (fsz - br))) s = (r, s')"
      by (cases "recv_exact (int (min chunk_size (fsz - br))) s")
    show ?thesis
    proof (cases r)
      case (Inl e)
      with True r show ?thesis by (subst recv_file_loop_step) simp
    next
      case (Inr chunk)
      have "recv_file_loop path br fsz s fs =
            recv_file_loop path (br + length chunk) fsz s' (file_write fs path chunk)"
        using True r Inr by (subst recv_file_loop_step) simp
      then show ?thesis
        using "1.IH" [OF True refl refl r [symmetric] Inr "1.prems"]
          map_of_file_write_other [OF "1.prems"]
        by simp
    qed
  qed
qed

lemma recv_file_loop_exists:
  "map_of (files fs) path \<noteq> None \<Longrightarrow>
   map_of (files (snd (snd (recv_file_loop path bytes_received file_size s fs)))) path \<noteq> None"
proof (induction path bytes_received file_size s fs rule: recv_file_loop.induct)
  case (1 path br fsz s fs)
  show ?case
  proof (cases "br < fsz")
    case False
    then show ?thesis using "1.prems" by (subst recv_file_loop_step) simp
  next
    case True
    obtain r s' where r: "recv_exact (int (min chunk_size (fsz - br))) s = (r, s')"
      by (cases "recv_exact (int (min chunk_size (fsz - br))) s")
    show ?thesis
    proof (cases r)
      case (Inl e)
      with True r "1.prems" show ?thesis by (subst recv_file_loop_step) simp
    next
      case (Inr chunk)
      have w: "map_of (files (file_write fs path chunk)) path \<noteq> None"
        by (simp add: file_write_def update_conv')
      have "recv_file_loop path br fsz s fs =
            recv_file_loop path (br + length chunk) fsz s' (file_write fs path chunk)"
        using True r Inr by (subst recv_file_loop_step) simp
      then show ?thesis
        using "1.IH" [OF True refl refl r [symmetric] Inr w] by simp
    qed
  qed
qed

lemma recv_file_loop_content:
  "file_size - bytes_received \<le> length (concat (inbound s)) \<Longrightarrow>
   map_of (files fs) path = Some old \<Longrightarrow>
   \<exists>s' fs'. recv_file_loop path bytes_received file_size s fs = (Inr (), s', fs') \<and>
     map_of (files fs') path =
       Some (old @ take (file_size - bytes_received) (concat (inbound s))) \<and>
     concat (inbound s') = drop (file_size - bytes_received) (concat (inbound s))"
proof (induction path bytes_received file_size s fs arbitrary: old rule: recv_file_loop.induct)
  case (1 path br fsz s fs)
  show ?case
  proof (cases "br < fsz")
    case False
    then show ?thesis using "1.prems" by (subst recv_file_loop_step) simp
  next
    case True
    let ?k = "min chunk_size (fsz - br)"
    let ?avail = "concat (inbound s)"
    have k: "?k \<le> fsz - br" "?k \<le> length ?avail" using "1.prems"(1) by simp_all
    obtain r s' where r: "recv_exact (int ?k) s = (r, s')"
      by (cases "recv_exact (int ?k) s")
    have rv: "r = Inr (take ?k ?avail)"
      using recv_exact_fst [of "int ?k" s] r k(2) by simp
    have s': "concat (inbound s') = drop ?k ?avail"
      using recv_exact_inbound [of "int ?k" s] r k(2) by simp
    have len: "length (take ?k ?avail) = ?k" using k(2) by simp
    have step: "recv_file_loop path br fsz s fs =
          recv_file_loop path (br + ?k) fsz s' (file_write fs path (take ?k ?avail))"
      using True r rv len by (subst recv_file_loop_step) simp
    have enough: "fsz - (br + length (take ?k ?avail)) \<le> length (concat (inbound s'))"
      using "1.prems"(1) s' len by simp
    from "1.IH" [OF True refl refl r [symmetric] rv enough
        map_of_file_write_same [OF "1.prems"(2)]]
    obtain s'' fs'' where res:
      "recv_file_loop path (br + length (take ?k ?avail)) fsz s'
         (file_write fs path (take ?k ?avail)) = (Inr (), s'', fs'')"
      "map_of (files fs'') path =
         Some ((old @ take ?k ?avail) @
               take (fsz - (br + length (take ?k ?avail))) (concat (inbound s')))"
      "concat (inbound s'') = drop (fsz - (br + length (take ?k ?avail))) (concat (inbound s'))"
      by blast
    have split: "fsz - br = ?k + (fsz - (br + ?k))" using k(1) by simp
    have tk: "take (fsz - br) ?avail = take ?k ?avail @ take (fsz - (br + ?k)) (drop ?k ?avail)"
      by (subst split) (simp only: take_add)
    have dr: "drop (fsz - br) ?avail = drop (fsz - (br + ?k)) (drop ?k ?avail)"
      by (subst split) (simp only: drop_drop add.commute)
    show ?thesis
      using res step s' tk dr by (simp only: len) simp
  qed
qed

lemma recv_exact_length:
  "fst (recv_exact (int n) s) = Inr z \<Longrightarrow> length z = n"
  by (auto simp: recv_exact_fst split: if_splits)

text \<open>Once the name and the size field have arrived, \<open>recv_file\<close> is decided by the
  \<open>open\<close> and by the content loop.\<close>

lemma recv_file_try_after_header:
  assumes m: "fst (recv_message s) = Inr (Some d)" and d: "d \<noteq> []"
    and u: "utf8_decode d = Inr filename"
    and z: "fst (recv_exact 8 (snd (recv_message s))) = Inr z"
  shows "recv_file_try s fs save_path =
     (case open_wb fs (full_save_path save_path filename) of
        Inl e \<Rightarrow> (Inl e, snd (recv_exact 8 (snd (recv_message s))), fs)
      | Inr fs1 \<Rightarrow>
          (case recv_file_loop (full_save_path save_path filename) 0 (be_decode z)
                  (snd (recv_exact 8 (snd (recv_message s)))) fs1 of
             (Inl e, s3, fs2) \<Rightarrow> (Inl e, s3, fs2)
           | (Inr _, s3, fs2) \<Rightarrow> (Inr True, s3, fs2)))"
proof -
  obtain s1 where s1: "recv_message s = (Inr (Some d), s1)"
    using m by (cases "recv_message s") auto
  obtain s2 where s2: "recv_exact 8 s1 = (Inr z, s2)"
    using z s1 by (cases "recv_exact 8 s1") auto
  have "length z = 8" using recv_exact_length [of 8 s1 z] s2 by simp
  then have q: "struct_unpack_Q z = Inr (be_decode z)" by (simp add: struct_unpack_Q_def)
  have e: "snd (recv_exact 8 (snd (recv_message s))) = s2" using s1 s2 by simp
  show ?thesis unfolding e using s1 s2 d u q by (simp add: recv_file_try_def)
qed

lemma recv_file_loop_error:
  "recv_file_loop path bytes_received file_size s fs = (Inl e, s', fs') \<Longrightarrow> e = ConnectionError"
proof (induction path bytes_received file_size s fs rule: recv_file_loop.induct)
  case (1 path br fsz s fs)
  show ?case
  proof (cases "br < fsz")
    case False
    with "1.prems" show ?thesis by (subst (asm) recv_file_loop_step) simp
  next
    case True
    obtain r s1 where r: "recv_exact (int (min chunk_size (fsz - br))) s = (r, s1)"
      by (cases "recv_exact (int (min chunk_size (fsz - br))) s")
    show ?thesis
    proof (cases r)
      case (Inl x)
      with r recv_exact_error [of "int (min chunk_size (fsz - br))" s x]
      have "x = ConnectionError" by simp
      with Inl True r "1.prems" show ?thesis by (subst (asm) recv_file_loop_step) simp
    next
      case (Inr chunk)
      have "recv_file_loop path br fsz s fs =
            recv_file_loop path (br + length chunk) fsz s1 (file_write fs path chunk)"
        using True r Inr by (subst recv_file_loop_step) simp
      with "1.prems" "1.IH" [OF True refl refl r [symmetric] Inr] show ?thesis by simp
    qed
  qed
qed

lemma recv_file_after_header:
  assumes m: "fst (recv_message s) = Inr (Some d)" and d: "d \<noteq> []"
    and u: "utf8_decode d = Inr filename"
    and z: "fst (recv_exact 8 (snd (recv_message s))) = Inr z"
  shows "recv_file s fs save_path =
     (case open_wb fs (full_save_path save_path filename) of
        Inl e \<Rightarrow> (Inr False, snd (recv_exact 8 (snd (recv_message s))), fs)
      | Inr fs1 \<Rightarrow>
          (case recv_file_loop (full_save_path save_path filename) 0 (be_decode z)
                  (snd (recv_exact 8 (snd (recv_message s)))) fs1 of
             (Inl e, s3, fs2) \<Rightarrow> (Inr False, s3, fs2)
           | (Inr _, s3, fs2) \<Rightarrow> (Inr True, s3, fs2)))"
  unfolding recv_file_def recv_file_try_after_header [OF m d u z]
  by (auto split: sum.splits prod.splits dest: open_wb_error recv_file_loop_error)

text \<open>
  C9. When the name envelope has arrived and the 8-byte size field decodes to 0, and the
  destination can be opened for writing, \<open>recv_file\<close> returns \<open>True\<close>, the destination
  file exists with empty content, and the socket is left as it was right after the size
  field was read: no content read is made.
\<close>

theorem recv_file_empty_file:
  "fst (recv_message s) = Inr (Some d) \<Longrightarrow> d \<noteq> [] \<Longrightarrow> utf8_decode d = Inr filename \<Longrightarrow>
   fst (recv_exact 8 (snd (recv_message s))) = Inr z \<Longrightarrow> be_decode z = 0 \<Longrightarrow>
   open_wb fs (full_save_path save_path filename) = Inr fs1 \<Longrightarrow>
     recv_file s fs save_path = (Inr True, snd (recv_exact 8 (snd (recv_message s))), fs1) \<and>
     map_of (files fs1) (full_save_path save_path filename) = Some [] \<and>
     recv_calls (fst (snd (recv_file s fs save_path))) =
       recv_calls (snd (recv_exact 8 (snd (recv_message s))))"
proof -
  assume m: "fst (recv_message s) = Inr (Some d)" and d: "d \<noteq> []"
    and u: "utf8_decode d = Inr filename"
    and z: "fst (recv_exact 8 (snd (recv_message s))) = Inr z" and zero: "be_decode z = 0"
    and o: "open_wb fs (full_save_path save_path filename) = Inr fs1"
  have "recv_file s fs save_path = (Inr True, snd (recv_exact 8 (snd (recv_message s))), fs1)"
    using recv_file_after_header [OF m d u z, of fs save_path] o zero
    by (simp add: recv_file_loop_zero)
  then show ?thesis using open_wb_Inr [OF o] by simp
qed

lemma recv_message_stream:
  assumes h: "length h = 4" and c: "concat (inbound s) = h @ rest"
    and le: "be_decode h \<le> 104857600" and en: "be_decode h \<le> length rest"
  shows "fst (recv_message s) = Inr (Some (take (be_decode h) rest)) \<and>
         concat (inbound (snd (recv_message s))) = drop (be_decode h) rest"
proof -
  let ?s1 = "snd (recv_exact 4 s)"
  have a: "concat (inbound ?s1) = rest" by (rule recv_exact_after_header [OF h c])
  obtain r2 s2 where r2: "recv_exact (int (be_decode h)) ?s1 = (r2, s2)"
    by (cases "recv_exact (int (be_decode h)) ?s1")
  have v: "r2 = Inr (take (be_decode h) rest)"
    using recv_exact_fst [of "int (be_decode h)" ?s1] r2 a en by simp
  have i: "concat (inbound s2) = drop (be_decode h) rest"
    using recv_exact_inbound [of "int (be_decode h)" ?s1] r2 a en by simp
  have "recv_message_try s = (Inr (Some (take (be_decode h) rest)), s2)"
    using recv_message_try_header [OF h c] le r2 v by simp
  then show ?thesis using i by (simp add: recv_message_def)
qed

theorem recv_file_empty_file_witness:
  "fst (recv_file
         (fresh_sock [[0, 0, 0, 5, 97, 46], [116, 120, 116, 0, 0, 0], [0, 0, 0, 0, 0, 9]])
         \<lparr>files = [], dirs = [], unwritable = []\<rparr> (str_lit ''out/'')) = Inr True \<and>
   files (snd (snd (recv_file
         (fresh_sock [[0, 0, 0, 5, 97, 46], [116, 120, 116, 0, 0, 0], [0, 0, 0, 0, 0, 9]])
         \<lparr>files = [], dirs = [], unwritable = []\<rparr> (str_lit ''out/'')))) =
     [(str_lit ''out/a.txt'', [])] \<and>
   concat (inbound (fst (snd (recv_file
         (fresh_sock [[0, 0, 0, 5, 97, 46], [116, 120, 116, 0, 0, 0], [0, 0, 0, 0, 0, 9]])
         \<lparr>files = [], dirs = [], unwritable = []\<rparr> (str_lit ''out/''))))) = [9]"
proof -
  let ?s = "fresh_sock [[0, 0, 0, 5, 97, 46], [116, 120, 116, 0, 0, 0], [0, 0, 0, 0, 0, 9]]"
  let ?fs = "\<lparr>files = [], dirs = [], unwritable = []\<rparr>"
  let ?d = "[97, 46, 116, 120, 116] :: bytes"
  let ?z = "[0, 0, 0, 0, 0, 0, 0, 0] :: bytes"
  have c: "concat (inbound ?s) = [0, 0, 0, 5] @ (?d @ ?z @ [9])" by (simp add: fresh_sock_def)
  have h: "be_decode [0, 0, 0, 5] = 5" by (simp add: be_decode_def)
  have m: "fst (recv_message ?s) = Inr (Some ?d)"
    and i: "concat (inbound (snd (recv_message ?s))) = ?z @ [9]"
    using recv_message_stream [OF _ c] h by simp_all
  have z: "fst (recv_exact 8 (snd (recv_message ?s))) = Inr ?z"
    and j: "concat (inbound (snd (recv_exact 8 (snd (recv_message ?s))))) = [9]"
    using recv_exact_fst [of 8 "snd (recv_message ?s)"]
      recv_exact_inbound [of 8 "snd (recv_message ?s)"] i by simp_all
  have u: "utf8_decode ?d = Inr (str_lit ''a.txt'')"
    using utf8_decode_ascii [of ?d] by (simp add: str_lit_def)
  have p: "full_save_path (str_lit ''out/'') (str_lit ''a.txt'') = str_lit ''out/a.txt''"
    by (simp add: full_save_path_def endswith_def os_path_join_def startswith_def str_lit_def)
  have o: "open_wb ?fs (full_save_path (str_lit ''out/'') (str_lit ''a.txt'')) =
           Inr \<lparr>files = [(str_lit ''out/a.txt'', [])], dirs = [], unwritable = []\<rparr>"
    unfolding p by (simp add: open_wb_def str_lit_def)
  have zero: "be_decode ?z = 0" by (simp add: be_decode_def)
  from recv_file_empty_file [OF m _ u z zero o] j show ?thesis by simp
qed

text \<open>
  C7, as the specification states it, fails at a destination that denotes a directory
  but is written without a trailing separator: with the directory \<^verbatim>\<open>/tmp\<close> as
  destination, \<open>recv_file\<close> takes \<^verbatim>\<open>/tmp\<close> itself as the output path, the \<open>open\<close>
  fails, \<open>False\<close> is returned and no file \<^verbatim>\<open>/tmp/a.txt\<close> is written.
\<close>

theorem recv_file_directory_counterexample:
  "map_of (dirs \<lparr>files = [], dirs = [(str_lit ''/tmp'', 4096)], unwritable = []\<rparr>)
     (str_lit ''/tmp'') = Some 4096 \<and>
   fst (recv_file
         (fresh_sock [[0, 0, 0, 5, 97, 46, 116, 120, 116], [0, 0, 0, 0, 0, 0, 0, 1], [65]])
         \<lparr>files = [], dirs = [(str_lit ''/tmp'', 4096)], unwritable = []\<rparr>
         (str_lit ''/tmp'')) = Inr False \<and>
   files (snd (snd (recv_file
         (fresh_sock [[0, 0, 0, 5, 97, 46, 116, 120, 116], [0, 0, 0, 0, 0, 0, 0, 1], [65]])
         \<lparr>files = [], dirs = [(str_lit ''/tmp'', 4096)], unwritable = []\<rparr>
         (str_lit ''/tmp'')))) = []"
proof -
  let ?s = "fresh_sock [[0, 0, 0, 5, 97, 46, 116, 120, 116], [0, 0, 0, 0, 0, 0, 0, 1], [65]]"
  let ?fs = "\<lparr>files = [], dirs = [(str_lit ''/tmp'', 4096)], unwritable = []\<rparr>"
  let ?d = "[97, 46, 116, 120, 116] :: bytes"
  let ?z = "[0, 0, 0, 0, 0, 0, 0, 1] :: bytes"
  have c: "concat (inbound ?s) = [0, 0, 0, 5] @ (?d @ ?z @ [65])" by (simp add: fresh_sock_def)
  have h: "be_decode [0, 0, 0, 5] = 5" by (simp add: be_decode_def)
  have m: "fst (recv_message ?s) = Inr (Some ?d)"
    and i: "concat (inbound (snd (recv_message ?s))) = ?z @ [65]"
    using recv_message_stream [OF _ c] h by simp_all
  have z: "fst (recv_exact 8 (snd (recv_message ?s))) = Inr ?z"
    using recv_exact_fst [of 8 "snd (recv_message ?s)"] i by simp
  have u: "utf8_decode ?d = Inr (str_lit ''a.txt'')"
    using utf8_decode_ascii [of ?d] by (simp add: str_lit_def)
  have p: "full_save_path (str_lit ''/tmp'') (str_lit ''a.txt'') = str_lit ''/tmp''"
    by (simp add: full_save_path_def endswith_def str_lit_def)
  have o: "open_wb ?fs (full_save_path (str_lit ''/tmp'') (str_lit ''a.txt'')) =
           Inl IsADirectoryError"
    unfolding p by (simp add: open_wb_def str_lit_def)
  from recv_file_after_header [OF m _ u z, of ?fs "str_lit ''/tmp''"] o
  show ?thesis by (simp add: str_lit_def)
qed

text \<open>
  C7, amended. Once the name envelope and the size field have arrived, \<open>recv_file\<close>
  writes to the destination joined with the received file name (\<^verbatim>\<open>os.path.join\<close>) when
  the destination string ends with a slash or a backslash, and to the destination
  string itself otherwise: no other file of the filesystem changes, a successful call
  leaves a file at that path, and when that path can be opened and the stream holds the
  announced number of bytes the call succeeds and the file holds exactly these bytes.
\<close>

theorem recv_file_destination:
  "fst (recv_message s) = Inr (Some d) \<Longrightarrow> d \<noteq> [] \<Longrightarrow> utf8_decode d = Inr filename \<Longrightarrow>
   fst (recv_exact 8 (snd (recv_message s))) = Inr z \<Longrightarrow>
   s2 = snd (recv_exact 8 (snd (recv_message s))) \<Longrightarrow>
   target = (if endswith save_path 47 \<or> endswith save_path 92
             then os_path_join save_path filename else save_path) \<Longrightarrow>
   fs' = snd (snd (recv_file s fs save_path)) \<Longrightarrow>
     (\<forall>p. p \<noteq> target \<longrightarrow> map_of (files fs') p = map_of (files fs) p) \<and>
     (fst (recv_file s fs save_path) = Inr True \<longrightarrow> map_of (files fs') target \<noteq> None) \<and>
     (\<forall>fs1. open_wb fs target = Inr fs1 \<and> be_decode z \<le> length (concat (inbound s2)) \<longrightarrow>
        fst (recv_file s fs save_path) = Inr True \<and>
        map_of (files fs') target = Some (take (be_decode z) (concat (inbound s2))))"
proof -
  assume m: "fst (recv_message s) = Inr (Some d)" and d: "d \<noteq> []"
    and u: "utf8_decode d = Inr filename"
    and z: "fst (recv_exact 8 (snd (recv_message s))) = Inr z"
    and s2: "s2 = snd (recv_exact 8 (snd (recv_message s)))"
    and t: "target = (if endswith save_path 47 \<or> endswith save_path 92
             then os_path_join save_path filename else save_path)"
    and fs': "fs' = snd (snd (recv_file s fs save_path))"
  have tp: "full_save_path save_path filename = target"
    using t by (simp add: full_save_path_def)
  note r = recv_file_after_header [OF m d u z, of fs save_path, unfolded tp, folded s2]
  show ?thesis
  proof (cases "open_wb fs target")
    case (Inl e)
    then have "recv_file s fs save_path = (Inr False, s2, fs)" using r by simp
    then show ?thesis using fs' Inl by simp
  next
    case (Inr fs1)
    note o = open_wb_Inr [OF Inr]
    obtain r3 s3 fs3 where l: "recv_file_loop target 0 (be_decode z) s2 fs1 = (r3, s3, fs3)"
      by (cases "recv_file_loop target 0 (be_decode z) s2 fs1") auto
    have rf: "recv_file s fs save_path =
              (case r3 of Inl e \<Rightarrow> Inr False | Inr _ \<Rightarrow> Inr True, s3, fs3)"
      using r Inr l by (simp split: sum.splits)
    then have f3: "fs' = fs3" using fs' by simp
    have frame: "\<forall>p. p \<noteq> target \<longrightarrow> map_of (files fs') p = map_of (files fs) p"
    proof (intro allI impI)
      fix p assume ne: "p \<noteq> target"
      from recv_file_loop_frame [OF ne, of 0 "be_decode z" s2 fs1] l f3
      have "map_of (files fs') p = map_of (files fs1) p" by simp
      with o ne show "map_of (files fs') p = map_of (files fs) p" by simp
    qed
    have ex: "map_of (files fs') target \<noteq> None"
    proof -
      have "map_of (files fs1) target \<noteq> None" using o by simp
      from recv_file_loop_exists [OF this, of 0 "be_decode z" s2] l f3 show ?thesis by simp
    qed
    have content: "be_decode z \<le> length (concat (inbound s2)) \<Longrightarrow>
        fst (recv_file s fs save_path) = Inr True \<and>
        map_of (files fs') target = Some (take (be_decode z) (concat (inbound s2)))"
    proof -
      assume "be_decode z \<le> length (concat (inbound s2))"
      then have "be_decode z - 0 \<le> length (concat (inbound s2))" by simp
      from recv_file_loop_content [OF this, of fs1 target "[]"] o l f3 rf
      show ?thesis by auto
    qed
    show ?thesis using frame ex content Inr by auto
  qed
qed

theorem recv_file_destination_witness:
  "fst (recv_file
         (fresh_sock [[0, 0, 0, 5, 97, 46, 116], [120, 116, 0, 0, 0, 0, 0, 0, 0, 1], [65, 9]])
         \<lparr>files = [], dirs = [], unwritable = []\<rparr> (str_lit ''out/'')) = Inr True \<and>
   map_of (files (snd (snd (recv_file
         (fresh_sock [[0, 0, 0, 5, 97, 46, 116], [120, 116, 0, 0, 0, 0, 0, 0, 0, 1], [65, 9]])
         \<lparr>files = [], dirs = [], unwritable = []\<rparr> (str_lit ''out/'')))))
     (str_lit ''out/a.txt'') = Some [65] \<and>
   map_of (files (snd (snd (recv_file
         (fresh_sock [[0, 0, 0, 5, 97, 46, 116], [120, 116, 0, 0, 0, 0, 0, 0, 0, 1], [65, 9]])
         \<lparr>files = [], dirs = [], unwritable = []\<rparr> (str_lit ''out.bin'')))))
     (str_lit ''out.bin'') = Some [65]"
proof -
  let ?s = "fresh_sock [[0, 0, 0, 5, 97, 46, 116], [120, 116, 0, 0, 0, 0, 0, 0, 0, 1], [65, 9]]"
  let ?fs = "\<lparr>files = [], dirs = [], unwritable = []\<rparr>"
  let ?d = "[97, 46, 116, 120, 116] :: bytes"
  let ?z = "[0, 0, 0, 0, 0, 0, 0, 1] :: bytes"
  have c: "concat (inbound ?s) = [0, 0, 0, 5] @ (?d @ ?z @ [65, 9])"
    by (simp add: fresh_sock_def)
  have h: "be_decode [0, 0, 0, 5] = 5" by (simp add: be_decode_def)
  have m: "fst (recv_message ?s) = Inr (Some ?d)"
    and i: "concat (inbound (snd (recv_message ?s))) = ?z @ [65, 9]"
    using recv_message_stream [OF _ c] h by simp_all
  have z: "fst (recv_exact 8 (snd (recv_message ?s))) = Inr ?z"
    and j: "concat (inbound (snd (recv_exact 8 (snd (recv_message ?s))))) = [65, 9]"
    using recv_exact_fst [of 8 "snd (recv_message ?s)"]
      recv_exact_inbound [of 8 "snd (recv_message ?s)"] i by simp_all
  have u: "utf8_decode ?d = Inr (str_lit ''a.txt'')"
    using utf8_decode_ascii [of ?d] by (simp add: str_lit_def)
  have one: "be_decode ?z = 1" by (simp add: be_decode_def)
  have t1: "(if endswith (str_lit ''out/'') 47 \<or> endswith (str_lit ''out/'') 92
             then os_path_join (str_lit ''out/'') (str_lit ''a.txt'') else str_lit ''out/'') =
            str_lit ''out/a.txt''"
    by (simp add: endswith_def os_path_join_def startswith_def str_lit_def)
  have t2: "(if endswith (str_lit ''out.bin'') 47 \<or> endswith (str_lit ''out.bin'') 92
             then os_path_join (str_lit ''out.bin'') (str_lit ''a.txt'')
             else str_lit ''out.bin'') = str_lit ''out.bin''"
    by (simp add: endswith_def str_lit_def)
  have o1: "open_wb ?fs (str_lit ''out/a.txt'') =
            Inr \<lparr>files = [(str_lit ''out/a.txt'', [])], dirs = [], unwritable = []\<rparr>"
    by (simp add: open_wb_def str_lit_def)
  have o2: "open_wb ?fs (str_lit ''out.bin'') =
            Inr \<lparr>files = [(str_lit ''out.bin'', [])], dirs = [], unwritable = []\<rparr>"
    by (simp add: open_wb_def str_lit_def)
  from recv_file_destination [OF m _ u z refl t1 [symmetric] refl, of ?fs] o1 j one
  have a: "fst (recv_file ?s ?fs (str_lit ''out/'')) = Inr True \<and>
           map_of (files (snd (snd (recv_file ?s ?fs (str_lit ''out/'')))))
             (str_lit ''out/a.txt'') = Some [65]"
    by simp
  from recv_file_destination [OF m _ u z refl t2 [symmetric] refl, of ?fs] o2 j one
  have b: "map_of (files (snd (snd (recv_file ?s ?fs (str_lit ''out.bin'')))))
             (str_lit ''out.bin'') = Some [65]"
    by simp
  from a b show ?thesis by blast
qed

end
